theory Spec2Isabelle
  imports Complex_Main "HOL-Library.AList"
begin

section \<open>Values, dictionaries and errors\<close>

text \<open>
  GraphyDB items carry a Python dictionary \<^verbatim>\<open>data\<close> from string keys to JSON values.
  The code inspects values only through \<^verbatim>\<open>==\<close>, \<^verbatim>\<open>is None\<close> and by copying them, so
  a value is \<open>Null\<close> (\<^verbatim>\<open>None\<close>), a number (\<^verbatim>\<open>time.time()\<close> readings; Python compares
  \<^verbatim>\<open>int\<close>, \<^verbatim>\<open>float\<close> and \<^verbatim>\<open>bool\<close> numerically), a string (uids, kinds), or some other JSON
  value of an arbitrary type \<open>'a\<close> whose equality is Python's \<^verbatim>\<open>==\<close>.

  A dictionary is a map; equality of maps is Python's equality of dictionaries.
\<close>

datatype 'a val = Null | Num real | Str string | Other 'a

type_synonym 'a dict = "string \<rightharpoonup> 'a val"

text \<open>
  \<^verbatim>\<open>GraphyDBException(msg)\<close> is the only exception class of the module; \<open>KeyError\<close> and
  \<open>IndexError\<close> are the built-in exceptions of a missing dictionary key and of \<^verbatim>\<open>k[0]\<close> on
  the empty string.
\<close>

datatype error =
  GraphyDBException string | KeyError | IndexError | UnboundLocalError | AttributeError

text \<open>\<^verbatim>\<open>d[k]\<close> on a dictionary.\<close>

definition getitem :: "'a dict \<Rightarrow> string \<Rightarrow> error + 'a val" where
  "getitem d k = (case d k of None \<Rightarrow> Inl KeyError | Some v \<Rightarrow> Inr v)"

section \<open>Module helpers: cleandata, diff, patch\<close>

text \<open>
  \<^verbatim>\<open>
  def cleandata(fulldata):
      data = {k:v for k,v in fulldata.items() if k[0] != '_'}
      return data
  \<close>
  \<^verbatim>\<open>k[0]\<close> raises IndexError on the empty key.
\<close>

definition cleandata :: "'a dict \<Rightarrow> error + 'a dict" where
  "cleandata fulldata =
     (if [] \<in> dom fulldata then Inl IndexError
      else Inr (\<lambda>k. if hd k \<noteq> CHR ''_'' then fulldata k else None))"

text \<open>
  The change dictionary that \<^verbatim>\<open>diff\<close> returns has at most the keys \<^verbatim>\<open>'+'\<close> and \<^verbatim>\<open>'-'\<close>,
  each bound to a dictionary.
\<close>

record 'a delta =
  plus :: "'a dict option"
  minus :: "'a dict option"

text \<open>
  \<^verbatim>\<open>
  def diff(d1,d2,changedkeys):
      remove = {}
      add = {}
      for k in d1.keys()|d2.keys():
          if k[0] == '_':
              continue
          elif k in changedkeys:
              if k not in d2:
                  remove[k] = d1[k]
              elif k not in d1:
                  add[k] = d2[k]
              elif d1[k]!=d2[k]:
                  remove[k] = d1[k]
                  add[k] = d2[k]
      if len(remove) == 1 and 'mtime' in remove and len(add) == 1 and 'mtime' in add:
          remove = {}
          add = {}
      change = {}
      if len(add)>0:
          change['+'] = add
      if len(remove)>0:
          change['-'] = remove
      return change
  \<close>
  Each pass of the loop writes only the entries of its own key \<open>k\<close>, and every key is
  visited once, so the two dictionaries the loop builds are given entry by entry:
  \<open>diff_remove\<close> and \<open>diff_add\<close> are the body of the loop at key \<open>k\<close>.
\<close>

definition diff_remove :: "'a dict \<Rightarrow> 'a dict \<Rightarrow> string set \<Rightarrow> 'a dict" where
  "diff_remove d1 d2 changedkeys k =
     (if k \<in> dom d1 \<union> dom d2 then
        (if hd k = CHR ''_'' then None
         else if k \<in> changedkeys then
           (if k \<notin> dom d2 then d1 k
            else if k \<notin> dom d1 then None
            else if d1 k \<noteq> d2 k then d1 k
            else None)
         else None)
      else None)"

definition diff_add :: "'a dict \<Rightarrow> 'a dict \<Rightarrow> string set \<Rightarrow> 'a dict" where
  "diff_add d1 d2 changedkeys k =
     (if k \<in> dom d1 \<union> dom d2 then
        (if hd k = CHR ''_'' then None
         else if k \<in> changedkeys then
           (if k \<notin> dom d2 then None
            else if k \<notin> dom d1 then d2 k
            else if d1 k \<noteq> d2 k then d2 k
            else None)
         else None)
      else None)"

text \<open>The test before the reset: \<^verbatim>\<open>len(remove) == 1 and 'mtime' in remove and ...\<close>.\<close>

definition mtime_only :: "'a dict \<Rightarrow> 'a dict \<Rightarrow> bool" where
  "mtime_only remove add \<longleftrightarrow>
     card (dom remove) = 1 \<and> ''mtime'' \<in> dom remove \<and> card (dom add) = 1 \<and> ''mtime'' \<in> dom add"

definition diff :: "'a dict \<Rightarrow> 'a dict \<Rightarrow> string set \<Rightarrow> error + 'a delta" where
  "diff d1 d2 changedkeys =
     (if [] \<in> dom d1 \<union> dom d2 then Inl IndexError
      else
        let remove0 = diff_remove d1 d2 changedkeys;
            add0 = diff_add d1 d2 changedkeys;
            remove = (if mtime_only remove0 add0 then Map.empty else remove0);
            add = (if mtime_only remove0 add0 then Map.empty else add0)
        in Inr \<lparr> plus = (if add \<noteq> Map.empty then Some add else None),
                 minus = (if remove \<noteq> Map.empty then Some remove else None) \<rparr>)"

text \<open>
  \<^verbatim>\<open>
  def patch(d, change, reverse=False):
      d2=dict(d)
      if reverse:
          for k in change.get('+',{}).keys():
              del d2[k]
          d2.update(change.get('-',{}))
      else:
          for k in change.get('-',{}).keys():
              del d2[k]
          d2.update(change.get('+',{}))
      return d2
  \<close>
  \<^verbatim>\<open>del d2[k]\<close> raises KeyError when \<open>k\<close> is not a key of \<open>d2\<close>.
\<close>

definition getdict :: "'a dict option \<Rightarrow> 'a dict" where
  "getdict x = (case x of None \<Rightarrow> Map.empty | Some m \<Rightarrow> m)"

definition patch :: "'a dict \<Rightarrow> ('a, 'b) delta_scheme \<Rightarrow> bool \<Rightarrow> error + 'a dict" where
  "patch d change reverse =
     (if reverse then
        (if dom (getdict (plus change)) \<subseteq> dom d
         then Inr ((d |` (- dom (getdict (plus change)))) ++ getdict (minus change))
         else Inl KeyError)
      else
        (if dom (getdict (minus change)) \<subseteq> dom d
         then Inr ((d |` (- dom (getdict (minus change)))) ++ getdict (plus change))
         else Inl KeyError))"

section \<open>IndexedSet\<close>

text \<open>
  An \<^verbatim>\<open>IndexedSet\<close> holds a list \<^verbatim>\<open>_list\<close> and a dictionary \<^verbatim>\<open>_index\<close> from uids to
  elements. The order of \<^verbatim>\<open>_index\<close> matters (\<^verbatim>\<open>list(self._index.values())\<close>), so it is an
  association list in Python's insertion order: \<open>AList.update\<close> overwrites the value of a
  key that is present, in place, and appends a new key at the end, as a \<^verbatim>\<open>dict\<close> does.
  The method \<^verbatim>\<open>__uid__\<close> of the elements is the parameter \<open>uid\<close>.

  The constructor reads its argument twice, so a list and a generator behave differently:
  a generator is exhausted by the first pass and the second pass finds nothing.
  \<^verbatim>\<open>
  def __init__(self, iterable=[]):
      self._index = {n.__uid__():n for n in iterable}
      self._list = list(iterable)
      if len(self._list) != len(self._index.keys()):
          ## iterable contains duplicates. Base the list on the _index.
          self._list = list(self._index.values())
  \<close>
\<close>

datatype 'x iterable = Sequence "'x list" | Generator "'x list"

text \<open>What the first pass over the iterable yields, and what a second pass yields.\<close>

fun elements :: "'x iterable \<Rightarrow> 'x list" where
  "elements (Sequence xs) = xs"
| "elements (Generator xs) = xs"

fun again :: "'x iterable \<Rightarrow> 'x list" where
  "again (Sequence xs) = xs"
| "again (Generator xs) = []"

record ('k, 'x) indexedset =
  ilist :: "'x list"
  iindex :: "('k \<times> 'x) list"

text \<open>The dictionary comprehension \<^verbatim>\<open>{n.__uid__():n for n in iterable}\<close>.\<close>

definition index_of :: "('x \<Rightarrow> 'k) \<Rightarrow> 'x list \<Rightarrow> ('k \<times> 'x) list" where
  "index_of uid xs = fold (\<lambda>n. AList.update (uid n) n) xs []"

definition IndexedSet :: "('x \<Rightarrow> 'k) \<Rightarrow> 'x iterable \<Rightarrow> ('k, 'x) indexedset" where
  "IndexedSet uid iterable =
     (let index = index_of uid (elements iterable);
          lst = again iterable
      in \<lparr> ilist = (if length lst \<noteq> length index then map snd index else lst),
            iindex = index \<rparr>)"

text \<open>
  \<^verbatim>\<open>
  def conditionalyield(keys,A,B):
      for k in keys:
          yield (A[k] if k in A else B[k])
  \<close>
  \<^verbatim>\<open>B[k]\<close> raises KeyError when \<open>k\<close> is in neither dictionary; the error surfaces when the
  constructor consumes the generator.
\<close>

fun conditionalyield :: "'k list \<Rightarrow> ('k \<times> 'x) list \<Rightarrow> ('k \<times> 'x) list \<Rightarrow> error + 'x list" where
  "conditionalyield [] A B = Inr []"
| "conditionalyield (k # keys) A B =
     (case (case map_of A k of Some x \<Rightarrow> Some x | None \<Rightarrow> map_of B k) of
        None \<Rightarrow> Inl KeyError
      | Some x \<Rightarrow> (case conditionalyield keys A B of Inl e \<Rightarrow> Inl e | Inr xs \<Rightarrow> Inr (x # xs)))"

text \<open>
  \<^verbatim>\<open>
  def __or__(self, other):
      keys = self._index.keys().__or__(other._index.keys())
      return self.__class__(conditionalyield(keys, self._index, other._index))
  \<close>
  \<^verbatim>\<open>keys\<close> is a Python \<^verbatim>\<open>set\<close>: the keys of \<^verbatim>\<open>self\<close>, then those of \<^verbatim>\<open>other\<close>, are added to a
  hash table, and the loop of \<^verbatim>\<open>conditionalyield\<close> visits them in the order of the table,
  which depends on the hashes of the uids (for strings, on the hash seed of the process)
  and not on the order of insertion. That order is the parameter \<open>so\<close>, from the keys in
  the order they were added to the keys in the order the set yields them; \<open>set_order so\<close>
  says all that the language promises of it: every key once.
\<close>

definition set_order :: "('k list \<Rightarrow> 'k list) \<Rightarrow> bool" where
  "set_order so \<longleftrightarrow> (\<forall>ks. distinct (so ks) \<and> set (so ks) = set ks)"

definition union_keys ::
  "('k list \<Rightarrow> 'k list) \<Rightarrow> ('k, 'x) indexedset \<Rightarrow> ('k, 'x) indexedset \<Rightarrow> 'k list" where
  "union_keys so self other = so (map fst (iindex self) @ map fst (iindex other))"

definition IndexedSet_or ::
  "('k list \<Rightarrow> 'k list) \<Rightarrow> ('x \<Rightarrow> 'k) \<Rightarrow> ('k, 'x) indexedset \<Rightarrow> ('k, 'x) indexedset
     \<Rightarrow> error + ('k, 'x) indexedset" where
  "IndexedSet_or so uid self other =
     (let keys = union_keys so self other
      in case conditionalyield keys (iindex self) (iindex other) of
           Inl e \<Rightarrow> Inl e
         | Inr ys \<Rightarrow> Inr (IndexedSet uid (Generator ys)))"

text \<open>\<^verbatim>\<open>def __len__(self): return self._index.__len__()\<close>\<close>

definition IndexedSet_len :: "('k, 'x) indexedset \<Rightarrow> nat" where
  "IndexedSet_len s = length (iindex s)"

text \<open>
  The index of a set is keyed by the uids of its elements, each key once (a Python
  dictionary has no repeated key).
\<close>

definition consistent :: "('x \<Rightarrow> 'k) \<Rightarrow> ('k, 'x) indexedset \<Rightarrow> bool" where
  "consistent uid s \<longleftrightarrow>
     distinct (map fst (iindex s)) \<and> (\<forall>(k, x) \<in> set (iindex s). uid x = k)"

subsection \<open>Vocabulary of the statements about IndexedSet\<close>

text \<open>
  The keys of a list in the order of their first occurrence; the last and the first
  element of a list with a given uid; the element \<^verbatim>\<open>A[k] if k in A else B[k]\<close>.
\<close>

definition firsts :: "'k list \<Rightarrow> 'k list" where
  "firsts ks = rev (remdups (rev ks))"

definition latest :: "('x \<Rightarrow> 'k) \<Rightarrow> 'x list \<Rightarrow> 'k \<Rightarrow> 'x" where
  "latest uid xs k = last (filter (\<lambda>x. uid x = k) xs)"

definition earliest :: "('x \<Rightarrow> 'k) \<Rightarrow> 'x list \<Rightarrow> 'k \<Rightarrow> 'x" where
  "earliest uid xs k = hd (filter (\<lambda>x. uid x = k) xs)"

definition pick :: "('k \<times> 'x) list \<Rightarrow> ('k \<times> 'x) list \<Rightarrow> 'k \<Rightarrow> 'x" where
  "pick A B k = (case map_of A k of Some x \<Rightarrow> x | None \<Rightarrow> the (map_of B k))"

text \<open>
  The order the specification gives to a union: the elements of the left operand in its
  order, then the elements of the right operand whose uid the left one lacks.
\<close>

definition left_first ::
  "('x \<Rightarrow> 'k) \<Rightarrow> ('k, 'x) indexedset \<Rightarrow> ('k, 'x) indexedset \<Rightarrow> 'x list" where
  "left_first uid A B = ilist A @ filter (\<lambda>x. uid x \<notin> uid ` set (ilist A)) (ilist B)"

section \<open>The chain parser\<close>









text \<open>
  A link of the chain is a dictionary with the keys \<^verbatim>\<open>type\<close>, \<^verbatim>\<open>table\<close>, \<^verbatim>\<open>leftuid\<close>,
  \<^verbatim>\<open>rightuid\<close>, \<^verbatim>\<open>ftstable\<close>, \<^verbatim>\<open>columns\<close> and, once set, \<^verbatim>\<open>kind\<close>, \<^verbatim>\<open>extra\<close>, \<^verbatim>\<open>alias\<close>,
  \<^verbatim>\<open>leftlink\<close> and \<^verbatim>\<open>rightlink\<close>.
\<close>

record link =
  ltype :: string
  table :: string
  leftuid :: string
  rightuid :: string
  ftstable :: string
  columns :: "string list"
  kind :: "string option"
  extra :: "(string \<times> string) list option"
  aliasname :: string
  leftlink :: "string option"
  rightlink :: "string option"




text \<open>\<^verbatim>\<open>if len(tmp)==2: item["kind"]=tmp[1]\<close>\<close>

definition set_kind :: "string list \<Rightarrow> link \<Rightarrow> link" where
  "set_kind tmp item = (if length tmp = 2 then item \<lparr> kind := Some (tmp ! 1) \<rparr> else item)"





subsection \<open>Vocabulary of the statements about the parser\<close>






section \<open>The graph store\<close>

text \<open>
  The SQLite database of a \<^verbatim>\<open>Graph\<close> holds the tables
  \<^verbatim>\<open>nodes(uid TEXT PRIMARY KEY, kind, ctime, mtime, data)\<close>,
  \<^verbatim>\<open>edges(uid TEXT PRIMARY KEY, kind, startuid, enduid, ctime, mtime, data)\<close> and
  \<^verbatim>\<open>changes(id INTEGER PRIMARY KEY AUTOINCREMENT, change)\<close>. A table is the list of its
  rows in the order of insertion; the column \<^verbatim>\<open>data\<close> and the column \<^verbatim>\<open>change\<close> hold the
  dictionaries that \<^verbatim>\<open>json.dumps\<close> wrote and \<^verbatim>\<open>json.loads\<close> reads back. No full-text
  table exists (\<^verbatim>\<open>Graph()\<close> creates none, and \<^verbatim>\<open>deletefts\<close> does nothing without one); the
  tables \<^verbatim>\<open>settings\<close> and \<^verbatim>\<open>cache\<close> are not touched by the operations below.

  \<^verbatim>\<open>time.time()\<close> and \<^verbatim>\<open>generateUUID()\<close> read the outside world: their successive results
  are the sequences \<open>clock\<close> and \<open>uuids\<close>, and the state counts how many were read.
\<close>

record 'a noderow =
  n_uid :: "'a val"
  n_kind :: "'a val"
  n_ctime :: "'a val"
  n_mtime :: "'a val"
  n_data :: "'a dict"

record 'a edgerow =
  e_uid :: "'a val"
  e_startuid :: "'a val"
  e_kind :: "'a val"
  e_enduid :: "'a val"
  e_ctime :: "'a val"
  e_mtime :: "'a val"
  e_data :: "'a dict"

text \<open>
  A change record is a dictionary with the keys \<^verbatim>\<open>uid\<close>, \<^verbatim>\<open>time\<close>, \<^verbatim>\<open>rev\<close>, with \<^verbatim>\<open>'+'\<close> and
  \<^verbatim>\<open>'-'\<close> when present, and with \<^verbatim>\<open>batch\<close> when a batch was given.
\<close>

record 'a change = "'a delta" +
  c_uid :: "'a val"
  c_time :: real
  c_rev :: string
  c_batch :: "string option"

record 'a world =
  nodes :: "'a noderow list"
  edges :: "'a edgerow list"
  changes :: "(nat \<times> 'a change) list"
  lastid :: nat
  clock :: "nat \<Rightarrow> real"
  ticks :: nat
  uuids :: "nat \<Rightarrow> string"
  drawn :: nat

text \<open>
  An operation runs on a state and ends with a result or with an exception; what it
  wrote before the exception stays written.
\<close>

type_synonym ('a, 'r) act = "'a world \<Rightarrow> (error + 'r) \<times> 'a world"

definition ret :: "'r \<Rightarrow> ('a, 'r) act" where
  "ret x w = (Inr x, w)"

definition raise :: "error \<Rightarrow> ('a, 'r) act" where
  "raise e w = (Inl e, w)"

definition andthen :: "('a, 'r) act \<Rightarrow> ('r \<Rightarrow> ('a, 's) act) \<Rightarrow> ('a, 's) act" where
  "andthen m f w = (case m w of (Inl e, w') \<Rightarrow> (Inl e, w') | (Inr x, w') \<Rightarrow> f x w')"

text \<open>A query reads the state and leaves it as it is.\<close>

definition query :: "('a world \<Rightarrow> 'r) \<Rightarrow> ('a, 'r) act" where
  "query f w = (Inr (f w), w)"

definition attempt :: "error + 'r \<Rightarrow> ('a, 'r) act" where
  "attempt r = (case r of Inl e \<Rightarrow> raise e | Inr x \<Rightarrow> ret x)"

definition time_time :: "('a, real) act" where
  "time_time w = (Inr (clock w (ticks w)), w \<lparr> ticks := Suc (ticks w) \<rparr>)"

definition generateUUID :: "('a, string) act" where
  "generateUUID w = (Inr (uuids w (drawn w)), w \<lparr> drawn := Suc (drawn w) \<rparr>)"

text \<open>
  The comparison \<^verbatim>\<open>column = ?\<close> of SQL: \<^verbatim>\<open>NULL\<close> (Python's \<^verbatim>\<open>None\<close>) equals nothing.
\<close>

definition sql_eq :: "'a val \<Rightarrow> 'a val \<Rightarrow> bool" where
  "sql_eq a b \<longleftrightarrow> a \<noteq> Null \<and> b \<noteq> Null \<and> a = b"

section \<open>Items\<close>

text \<open>
  A \<^verbatim>\<open>GraphyDBItem\<close> holds the dictionary \<^verbatim>\<open>data\<close> and the set \<^verbatim>\<open>_changedkeys\<close>; its class is
  \<^verbatim>\<open>Node\<close> or \<^verbatim>\<open>Edge\<close>.
\<close>

record 'a item =
  idata :: "'a dict"
  changedkeys :: "string set"

datatype 'a gitem = NodeObj "'a item" | EdgeObj "'a item"

fun the_item :: "'a gitem \<Rightarrow> 'a item" where
  "the_item (NodeObj i) = i"
| "the_item (EdgeObj i) = i"

text \<open>
  \<^verbatim>\<open>
  def setChanged(self, changed):
      if changed:
          self._changedkeys = set(self.keys())
      else:
          self._changedkeys = set()
  \<close>
\<close>

definition setChanged :: "bool \<Rightarrow> 'a item \<Rightarrow> 'a item" where
  "setChanged changed i = i \<lparr> changedkeys := (if changed then dom (idata i) else {}) \<rparr>"

text \<open>
  \<^verbatim>\<open>
  def __setitem__(self, key, item):
      self.data.__setitem__(key, item)
      if key != 'mtime':
          self['mtime'] = time.time()
      self._changedkeys.add(key)
  \<close>
  Only \<^verbatim>\<open>self['mtime'] = time.time()\<close> is used by the operations below.
\<close>

definition touch_mtime :: "'a item \<Rightarrow> ('a, 'a item) act" where
  "touch_mtime i =
     andthen time_time (\<lambda>t.
       ret (i \<lparr> idata := (idata i)(''mtime'' \<mapsto> Num t),
               changedkeys := insert ''mtime'' (changedkeys i) \<rparr>))"

text \<open>
  \<^verbatim>\<open>
  def __init__(self, data, graph=None, changed=True):
      self.graph = graph
      if 'uid' not in data:
          data['uid'] = generateUUID()
      if 'ctime' not in data:
          data['ctime'] = time.time()
      if 'mtime' not in data:
          data['mtime'] = time.time()
      self.data = data
      self.setChanged(changed)
  \<close>
\<close>

definition default_uid :: "'a dict \<Rightarrow> ('a, 'a dict) act" where
  "default_uid d =
     (if ''uid'' \<notin> dom d then andthen generateUUID (\<lambda>u. ret (d(''uid'' \<mapsto> Str u))) else ret d)"

definition default_time :: "string \<Rightarrow> 'a dict \<Rightarrow> ('a, 'a dict) act" where
  "default_time k d =
     (if k \<notin> dom d then andthen time_time (\<lambda>t. ret (d(k \<mapsto> Num t))) else ret d)"

definition GraphyDBItem_init :: "'a dict \<Rightarrow> bool \<Rightarrow> ('a, 'a item) act" where
  "GraphyDBItem_init d changed =
     andthen (default_uid d) (\<lambda>d1.
     andthen (default_time ''ctime'' d1) (\<lambda>d2.
     andthen (default_time ''mtime'' d2) (\<lambda>d3.
       ret (setChanged changed \<lparr> idata = d3, changedkeys = {} \<rparr>))))"

text \<open>
  \<^verbatim>\<open>if data.setdefault('kind', None) is None: raise GraphyDBException(...)\<close>: the key is
  missing or bound to \<^verbatim>\<open>None\<close>.
\<close>

definition unset :: "'a dict \<Rightarrow> string \<Rightarrow> bool" where
  "unset d k \<longleftrightarrow> d k = None \<or> d k = Some Null"

text \<open>
  \<^verbatim>\<open>
  class Node:
      def __init__(self, data, graph=None, changed=True):
          if data.setdefault('kind', None) is None:
              raise GraphyDBException("Must supply Node kind")
          super().__init__(data, graph=graph, changed=changed)
  class Edge:
      def __init__(self, data, graph=None, changed=True):
          if data.setdefault('kind', None) is None:
              raise GraphyDBException("Must supply edge kind")
          if data.setdefault('startuid', None) is None:
              raise GraphyDBException("Wrong type or missing start node")
          if data.setdefault('enduid', None) is None:
              raise GraphyDBException("Wrong type or missing end node")
          super().__init__(data, graph=graph, changed=changed)
  \<close>
  An edge that gets this far has the three keys, so \<^verbatim>\<open>setdefault\<close> left \<open>data\<close> as it was.
\<close>

definition Node_init :: "'a dict \<Rightarrow> bool \<Rightarrow> ('a, 'a item) act" where
  "Node_init d changed =
     (if unset d ''kind'' then raise (GraphyDBException ''Must supply Node kind'')
      else GraphyDBItem_init d changed)"

definition Edge_init :: "'a dict \<Rightarrow> bool \<Rightarrow> ('a, 'a item) act" where
  "Edge_init d changed =
     (if unset d ''kind'' then raise (GraphyDBException ''Must supply edge kind'')
      else if unset d ''startuid'' then raise (GraphyDBException ''Wrong type or missing start node'')
      else if unset d ''enduid'' then raise (GraphyDBException ''Wrong type or missing end node'')
      else GraphyDBItem_init d changed)"

text \<open>
  \<^verbatim>\<open>def __uid__(self): return self.data['uid']\<close>. Every item that a constructor built has
  the key \<^verbatim>\<open>uid\<close>; sets of items are built from such items only.
\<close>

definition item_uid :: "'a item \<Rightarrow> 'a val" where
  "item_uid i = (case idata i ''uid'' of Some u \<Rightarrow> u | None \<Rightarrow> Null)"

section \<open>Queries\<close>

text \<open>
  \<^verbatim>\<open>Graph.fetch\<close> compiles a chain and its conditions to SQL. The operations below call it
  with fixed chains and conditions; each call is given by the statement that \<^verbatim>\<open>fetch\<close>
  compiles for it (\<^verbatim>\<open>DISTINCT\<close> defaults to true) and by the rows that statement selects.
  \<^verbatim>\<open>
  fetch(CHAIN='(n)', WHERE='n.uid = :uid', uid=uid)
    SELECT DISTINCT n.data FROM nodes n WHERE n.uid = :uid
  fetch(CHAIN='-(e)>', WHERE='e.uid = :uid', uid=uid)
    SELECT DISTINCT e.data FROM edges e WHERE e.uid = :uid
  fetch(CHAIN='<(e)-', WHERE=['e.enduid = :node_uid'], node_uid=uid)
    SELECT DISTINCT e.data FROM edges e WHERE e.enduid = :node_uid
  fetch(CHAIN='-(e)>', WHERE=['e.startuid = :node_uid'], node_uid=uid)
    SELECT DISTINCT e.data FROM edges e WHERE e.startuid = :node_uid
  \<close>
  and with \<^verbatim>\<open>COUNT=True\<close>
  \<^verbatim>\<open>
    SELECT COUNT(DISTINCT e.uid) FROM edges e WHERE e.enduid = :node_uid
    SELECT COUNT(DISTINCT e.uid) FROM edges e WHERE e.startuid = :node_uid
  \<close>
  which counts the different values of the column that are not \<^verbatim>\<open>NULL\<close>.
\<close>

definition select_data :: "('r \<Rightarrow> 'a dict) \<Rightarrow> ('r \<Rightarrow> 'a val) \<Rightarrow> 'a val \<Rightarrow> 'r list \<Rightarrow> 'a dict list" where
  "select_data data_of column v rows = remdups (map data_of (filter (\<lambda>r. sql_eq (column r) v) rows))"

definition count_distinct :: "('r \<Rightarrow> 'a val) \<Rightarrow> ('r \<Rightarrow> 'a val) \<Rightarrow> 'a val \<Rightarrow> 'r list \<Rightarrow> nat" where
  "count_distinct counted column v rows =
     length (remdups (filter (\<lambda>x. x \<noteq> Null) (map counted (filter (\<lambda>r. sql_eq (column r) v) rows))))"

text \<open>
  The rows become items:
  \<^verbatim>\<open>
  for row in cursor.execute(SQL, PARAM):
      args = json.loads(row[colkeys.index('data')])
      ...
      N = Node(args, graph=self, changed=False)
      items.append(N)
  return NSet(items)
  \<close>
  and likewise \<^verbatim>\<open>Edge\<close> and \<^verbatim>\<open>ESet\<close>; both sets are \<^verbatim>\<open>IndexedSet\<close>s.
\<close>

fun materialize :: "('a dict \<Rightarrow> bool \<Rightarrow> ('a, 'a item) act) \<Rightarrow> 'a dict list \<Rightarrow> ('a, 'a item list) act" where
  "materialize init [] = ret []"
| "materialize init (d # ds) =
     andthen (init d False) (\<lambda>i. andthen (materialize init ds) (\<lambda>items. ret (i # items)))"

definition fetch_items ::
  "('a dict \<Rightarrow> bool \<Rightarrow> ('a, 'a item) act) \<Rightarrow> 'a dict list \<Rightarrow> ('a, ('a val, 'a item) indexedset) act" where
  "fetch_items init rows =
     andthen (materialize init rows) (\<lambda>items. ret (IndexedSet item_uid (Sequence items)))"

text \<open>
  \<^verbatim>\<open>
  @property
  def one(self):
      if len(self)==0:
          return None
      else:
          return self[0]
  \<close>
  \<^verbatim>\<open>self[0]\<close> is \<^verbatim>\<open>self._list[0]\<close>.
\<close>

definition one :: "('k, 'x) indexedset \<Rightarrow> error + 'x option" where
  "one s =
     (if IndexedSet_len s = 0 then Inr None
      else (case ilist s of [] \<Rightarrow> Inl IndexError | x # xs \<Rightarrow> Inr (Some x)))"

text \<open>
  \<^verbatim>\<open>
  def getuid(self, uid):
      obj = self.fetch(CHAIN='(n)', WHERE='n.uid = :uid', uid=uid).one
      if obj is None:
          obj = self.fetch(CHAIN='-(e)>', WHERE='e.uid = :uid', uid=uid).one
      return obj
  \<close>
\<close>

definition getuid :: "'a val \<Rightarrow> ('a, 'a gitem option) act" where
  "getuid u =
     andthen (query (\<lambda>w. select_data n_data n_uid u (nodes w))) (\<lambda>rows.
     andthen (fetch_items Node_init rows) (\<lambda>ns.
     andthen (attempt (one ns)) (\<lambda>obj.
       case obj of
         Some n \<Rightarrow> ret (Some (NodeObj n))
       | None \<Rightarrow>
           andthen (query (\<lambda>w. select_data e_data e_uid u (edges w))) (\<lambda>rows.
           andthen (fetch_items Edge_init rows) (\<lambda>es.
           andthen (attempt (one es)) (\<lambda>obj.
             ret (map_option EdgeObj obj)))))))"

text \<open>
  \<^verbatim>\<open>
  def exists(self, uid):
      cursor = self.cursor()
      n = cursor.execute('SELECT COUNT(*) FROM nodes WHERE uid = ?',[uid]).fetchone()[0]
      if n==1:
          return True
      else:
          n = cursor.execute('SELECT COUNT(*) FROM edges WHERE uid = ?',[uid]).fetchone()[0]
          if n==1:
              return True
          else:
              return False
  \<close>
\<close>

definition Graph_exists :: "'a val \<Rightarrow> 'a world \<Rightarrow> bool" where
  "Graph_exists u w =
     (if length (filter (\<lambda>r. sql_eq (n_uid r) u) (nodes w)) = 1 then True
      else if length (filter (\<lambda>r. sql_eq (e_uid r) u) (edges w)) = 1 then True
      else False)"

text \<open>
  \<^verbatim>\<open>
  def inE(self, WHERE=None, **args):
      args['CHAIN'] = '<(e)-'
      args['WHERE'] = ensurelist(WHERE)
      args['WHERE'].insert(0,'e.enduid = :node_uid')
      args['node_uid'] = self['uid']
      return self.graph.fetch(**args)
  \<close>
  and \<^verbatim>\<open>outE\<close> with \<^verbatim>\<open>'-(e)>'\<close> and \<^verbatim>\<open>'e.startuid = :node_uid'\<close>; both are called with no
  argument, or with \<^verbatim>\<open>COUNT=True\<close> alone (\<open>inE_count\<close>, \<open>outE_count\<close>).
\<close>

definition inE :: "'a item \<Rightarrow> ('a, ('a val, 'a item) indexedset) act" where
  "inE self =
     andthen (attempt (getitem (idata self) ''uid'')) (\<lambda>u.
     andthen (query (\<lambda>w. select_data e_data e_enduid u (edges w))) (\<lambda>rows.
       fetch_items Edge_init rows))"

definition outE :: "'a item \<Rightarrow> ('a, ('a val, 'a item) indexedset) act" where
  "outE self =
     andthen (attempt (getitem (idata self) ''uid'')) (\<lambda>u.
     andthen (query (\<lambda>w. select_data e_data e_startuid u (edges w))) (\<lambda>rows.
       fetch_items Edge_init rows))"

definition inE_count :: "'a item \<Rightarrow> ('a, nat) act" where
  "inE_count self =
     andthen (attempt (getitem (idata self) ''uid'')) (\<lambda>u.
       query (\<lambda>w. count_distinct e_uid e_enduid u (edges w)))"

definition outE_count :: "'a item \<Rightarrow> ('a, nat) act" where
  "outE_count self =
     andthen (attempt (getitem (idata self) ''uid'')) (\<lambda>u.
       query (\<lambda>w. count_distinct e_uid e_startuid u (edges w)))"

text \<open>
  \<^verbatim>\<open>
  def bothE(self, WHERE=None, **args):
      args['WHERE'] = ensurelist(WHERE)
      if args.get('COUNT', False):
          args['COUNT'] = False
          ine = self.inE(**copy.deepcopy(args))
          oute = self.outE(**copy.deepcopy(args))
          return len(ine|oute)
      else:
          ine = self.inE(**copy.deepcopy(args))
          oute = self.outE(**copy.deepcopy(args))
          return ine | oute
  \<close>
  \<open>bothE\<close> is the call with no argument and \<open>bothE_count\<close> the call with \<^verbatim>\<open>COUNT=True\<close>.
\<close>

definition bothE :: "('a val list \<Rightarrow> 'a val list) \<Rightarrow> 'a item \<Rightarrow> ('a, ('a val, 'a item) indexedset) act" where
  "bothE so self =
     andthen (inE self) (\<lambda>ine.
     andthen (outE self) (\<lambda>oute.
       attempt (IndexedSet_or so item_uid ine oute)))"

definition bothE_count :: "('a val list \<Rightarrow> 'a val list) \<Rightarrow> 'a item \<Rightarrow> ('a, nat) act" where
  "bothE_count so self =
     andthen (inE self) (\<lambda>ine.
     andthen (outE self) (\<lambda>oute.
     andthen (attempt (IndexedSet_or so item_uid ine oute)) (\<lambda>both.
       ret (IndexedSet_len both))))"


section \<open>The change journal\<close>

text \<open>
  \<^verbatim>\<open>INSERT INTO changes (change) VALUES (?)\<close>: the id is one more than the largest id the
  table ever held (\<^verbatim>\<open>AUTOINCREMENT\<close>).
\<close>

definition insert_change :: "'a change \<Rightarrow> ('a, unit) act" where
  "insert_change c w =
     (Inr (), w \<lparr> changes := changes w @ [(Suc (lastid w), c)], lastid := Suc (lastid w) \<rparr>)"

text \<open>
  \<^verbatim>\<open>
  def addchange(self, new=None, old=None, batch=None):
      if new is None and old is None:
          return
      change = {}
      if new is None:
          change['uid'] = old['uid']
          change['-'] = cleandata(old.data)
      elif old is None:
          change['uid'] = new['uid']
          change['+'] = cleandata(new.data)
      else:
          d = diff(old.data, new.data, new._changedkeys)
          if len(d) == 0:
              return
          change['uid'] = new['uid']
          change.update(d)
      change.setdefault('time', time.time())
      change.setdefault('rev', generateUUID())
      if batch is not None:
          change['batch'] = batch
      change = json.dumps(change)
      cursor=self.cursor()
      row=cursor.execute('''INSERT INTO changes (change) VALUES (?)''', [change])
  \<close>
\<close>

definition record_change ::
  "'a val \<Rightarrow> 'a dict option \<Rightarrow> 'a dict option \<Rightarrow> string option \<Rightarrow> ('a, unit) act" where
  "record_change u p m batch =
     andthen time_time (\<lambda>t.
     andthen generateUUID (\<lambda>r.
       insert_change \<lparr> plus = p, minus = m, c_uid = u, c_time = t, c_rev = r, c_batch = batch \<rparr>))"

definition addchange :: "'a item option \<Rightarrow> 'a item option \<Rightarrow> string option \<Rightarrow> ('a, unit) act" where
  "addchange new old batch =
     (case new of
        None \<Rightarrow>
          (case old of
             None \<Rightarrow> ret ()
           | Some old' \<Rightarrow>
               andthen (attempt (getitem (idata old') ''uid'')) (\<lambda>u.
               andthen (attempt (cleandata (idata old'))) (\<lambda>m.
                 record_change u None (Some m) batch)))
      | Some new' \<Rightarrow>
          (case old of
             None \<Rightarrow>
               andthen (attempt (getitem (idata new') ''uid'')) (\<lambda>u.
               andthen (attempt (cleandata (idata new'))) (\<lambda>p.
                 record_change u (Some p) None batch))
           | Some old' \<Rightarrow>
               andthen (attempt (diff (idata old') (idata new') (changedkeys new'))) (\<lambda>d.
                 if plus d = None \<and> minus d = None then ret ()
                 else
                   andthen (attempt (getitem (idata new') ''uid'')) (\<lambda>u.
                     record_change u (plus d) (minus d) batch))))"

text \<open>
  \<^verbatim>\<open>
  def lastchanges(self):
      if self.countchanges()==0:
          out = []
      else:
          cid, change = cursor.execute('''
              SELECT id, change FROM changes
              ORDER BY id DESC LIMIT 1''').fetchone()
          change = json.loads(change)
          if 'batch' not in change:
              out = [(cid, change)]
          else:
              rows = cursor.execute('''
                  SELECT id, change FROM changes
                  WHERE json_extract(change, "$.batch") = ? ORDER BY id''', [change['batch']]).fetchall()
              out = [(cid, json.loads(change)) for cid, change in rows]
      return out
  def deletechange(self, id):
      cursor.execute('DELETE FROM changes WHERE id = ?', [id])
  \<close>
\<close>

definition lastchanges :: "'a world \<Rightarrow> (nat \<times> 'a change) list" where
  "lastchanges w =
     (if length (changes w) = 0 then []
      else
        (case last (sort_key fst (changes w)) of
           (cid, change) \<Rightarrow>
             (case c_batch change of
                None \<Rightarrow> [(cid, change)]
              | Some b \<Rightarrow> sort_key fst (filter (\<lambda>(i, c). c_batch c = Some b) (changes w)))))"

definition deletechange :: "nat \<Rightarrow> ('a, unit) act" where
  "deletechange i w = (Inr (), w \<lparr> changes := filter (\<lambda>(j, c). j \<noteq> i) (changes w) \<rparr>)"

section \<open>Saving and deleting\<close>

text \<open>
  \<^verbatim>\<open>INSERT OR REPLACE INTO nodes(...)\<close> removes the row whose primary key \<^verbatim>\<open>uid\<close> equals the new
  one and adds the new row; \<^verbatim>\<open>DELETE FROM nodes WHERE uid = ?\<close> removes the rows with that
  uid. The same holds of \<^verbatim>\<open>edges\<close>.
\<close>

definition replace_node :: "'a noderow \<Rightarrow> ('a, unit) act" where
  "replace_node row w =
     (Inr (), w \<lparr> nodes := filter (\<lambda>r. \<not> sql_eq (n_uid r) (n_uid row)) (nodes w) @ [row] \<rparr>)"

definition replace_edge :: "'a edgerow \<Rightarrow> ('a, unit) act" where
  "replace_edge row w =
     (Inr (), w \<lparr> edges := filter (\<lambda>r. \<not> sql_eq (e_uid r) (e_uid row)) (edges w) @ [row] \<rparr>)"

definition delete_node_row :: "'a val \<Rightarrow> ('a, unit) act" where
  "delete_node_row u w = (Inr (), w \<lparr> nodes := filter (\<lambda>r. \<not> sql_eq (n_uid r) u) (nodes w) \<rparr>)"

definition delete_edge_row :: "'a val \<Rightarrow> ('a, unit) act" where
  "delete_edge_row u w = (Inr (), w \<lparr> edges := filter (\<lambda>r. \<not> sql_eq (e_uid r) u) (edges w) \<rparr>)"

text \<open>
  \<^verbatim>\<open>
  def original(self):
      item = self.graph.getuid(self['uid'])
      return item
  \<close>
\<close>

definition original :: "'a item \<Rightarrow> ('a, 'a gitem option) act" where
  "original self = andthen (attempt (getitem (idata self) ''uid'')) getuid"

text \<open>
  \<^verbatim>\<open>
  def save(self, force=False, batch=None, setchange=True):      # Node
      if not force and not self.changed:
          return self
      cursor = self.graph.cursor()
      data = cleandata(self.data)
      if setchange:
          originalitem = self.original()
      cursor.execute("INSERT OR REPLACE INTO nodes(uid, kind, ctime, mtime, data) VALUES(?,?,?,?,?)",
                     (self['uid'], self['kind'], self['ctime'], self['mtime'], json.dumps(data)) )
      if setchange:
          self.graph.addchange(old=originalitem, new=self, batch=batch)
      self.setChanged(False)
      return self
  \<close>
\<close>

definition Node_save :: "bool \<Rightarrow> string option \<Rightarrow> bool \<Rightarrow> 'a item \<Rightarrow> ('a, 'a item) act" where
  "Node_save force batch setchange self =
     (if \<not> force \<and> changedkeys self = {} then ret self
      else
        andthen (attempt (cleandata (idata self))) (\<lambda>data.
        andthen (if setchange then original self else ret None) (\<lambda>originalitem.
        andthen (attempt (getitem (idata self) ''uid'')) (\<lambda>u.
        andthen (attempt (getitem (idata self) ''kind'')) (\<lambda>k.
        andthen (attempt (getitem (idata self) ''ctime'')) (\<lambda>c.
        andthen (attempt (getitem (idata self) ''mtime'')) (\<lambda>m.
        andthen (replace_node \<lparr> n_uid = u, n_kind = k, n_ctime = c, n_mtime = m, n_data = data \<rparr>) (\<lambda>_.
        andthen (if setchange then addchange (Some self) (map_option the_item originalitem) batch
                 else ret ()) (\<lambda>_.
          ret (setChanged False self))))))))))"

text \<open>
  \<^verbatim>\<open>
  def save(self, force=False, batch=None, setchange=True):      # Edge
      if not force and not self.changed:
          return self
      if not self.graph.exists(self['startuid']):
          raise GraphyDBException('start node referenced from edge does not exist in DB.')
      if not self.graph.exists(self['enduid']):
          raise GraphyDBException('end node referenced from edge does not exist in DB.')
      data = cleandata(self.data)
      if setchange:
          originalitem = self.original()
      cursor = self.graph.cursor()
      cursor.execute("INSERT OR REPLACE INTO edges(uid, startuid, kind, enduid, ctime, mtime, data) VALUES(?,?,?,?,?,?,?)",
                     (self['uid'], self['startuid'], self['kind'], self['enduid'], self['ctime'], self['mtime'], json.dumps(data)) )
      if setchange:
          self.graph.addchange(old=originalitem, new=self, batch=batch)
      self.setChanged(False)
      return self
  \<close>
\<close>

definition Edge_save :: "bool \<Rightarrow> string option \<Rightarrow> bool \<Rightarrow> 'a item \<Rightarrow> ('a, 'a item) act" where
  "Edge_save force batch setchange self =
     (if \<not> force \<and> changedkeys self = {} then ret self
      else
        andthen (attempt (getitem (idata self) ''startuid'')) (\<lambda>s.
        andthen (query (Graph_exists s)) (\<lambda>found.
        andthen (if \<not> found
                 then raise (GraphyDBException ''start node referenced from edge does not exist in DB.'')
                 else ret ()) (\<lambda>_.
        andthen (attempt (getitem (idata self) ''enduid'')) (\<lambda>e.
        andthen (query (Graph_exists e)) (\<lambda>found.
        andthen (if \<not> found
                 then raise (GraphyDBException ''end node referenced from edge does not exist in DB.'')
                 else ret ()) (\<lambda>_.
        andthen (attempt (cleandata (idata self))) (\<lambda>data.
        andthen (if setchange then original self else ret None) (\<lambda>originalitem.
        andthen (attempt (getitem (idata self) ''uid'')) (\<lambda>u.
        andthen (attempt (getitem (idata self) ''kind'')) (\<lambda>k.
        andthen (attempt (getitem (idata self) ''ctime'')) (\<lambda>c.
        andthen (attempt (getitem (idata self) ''mtime'')) (\<lambda>m.
        andthen (replace_edge \<lparr> e_uid = u, e_startuid = s, e_kind = k, e_enduid = e,
                                 e_ctime = c, e_mtime = m, e_data = data \<rparr>) (\<lambda>_.
        andthen (if setchange then addchange (Some self) (map_option the_item originalitem) batch
                 else ret ()) (\<lambda>_.
          ret (setChanged False self))))))))))))))))"

text \<open>
  \<^verbatim>\<open>
  def delete(self, setchange=True, batch=None):                 # Edge
      cursor = self.graph.cursor()
      cursor.execute('DELETE FROM edges WHERE uid = ?', (self['uid'],))
      self.deletefts()
      self['mtime'] = time.time()
      if setchange:
          self.graph.addchange(old=self, batch=batch)
      self.setChanged(True)
      return self
  \<close>
\<close>

definition Edge_delete :: "bool \<Rightarrow> string option \<Rightarrow> 'a item \<Rightarrow> ('a, 'a item) act" where
  "Edge_delete setchange batch self =
     andthen (attempt (getitem (idata self) ''uid'')) (\<lambda>u.
     andthen (delete_edge_row u) (\<lambda>_.
     andthen (touch_mtime self) (\<lambda>self'.
     andthen (if setchange then addchange None (Some self') batch else ret ()) (\<lambda>_.
       ret (setChanged True self')))))"

text \<open>The loop \<^verbatim>\<open>for edge in self.bothE(): edge.delete(batch=batch, setchange=setchange)\<close>.\<close>

fun delete_edges :: "bool \<Rightarrow> string option \<Rightarrow> 'a item list \<Rightarrow> ('a, unit) act" where
  "delete_edges setchange batch [] = ret ()"
| "delete_edges setchange batch (edge # rest) =
     andthen (Edge_delete setchange batch edge) (\<lambda>_. delete_edges setchange batch rest)"

text \<open>
  \<^verbatim>\<open>
  def delete(self, disconnect=False, batch=None, setchange=True):   # Node
      cursor = self.graph.cursor()
      if self.outE(COUNT=True)+self.inE(COUNT=True) > 0:
          if disconnect:
              if setchange and batch is None:
                  batch = generateUUID()
              for edge in self.bothE():
                  edge.delete(batch=batch, setchange=setchange)
          else:
              raise GraphyDBException("Node still connected. Delete Edges First")
      cursor.execute('DELETE FROM nodes WHERE uid = ?', (self['uid'],))
      if setchange:
          self.graph.addchange(old=self, batch=batch)
      self.deletefts()
      self['mtime'] = time.time()
      self.setChanged(True)
      return self
  \<close>
  \<open>disconnect_edges\<close> is the body of the first \<^verbatim>\<open>if\<close>; its value is the batch that the rest
  of the method uses.
\<close>

definition disconnect_edges ::
  "('a val list \<Rightarrow> 'a val list) \<Rightarrow> bool \<Rightarrow> string option \<Rightarrow> bool \<Rightarrow> 'a item
     \<Rightarrow> ('a, string option) act" where
  "disconnect_edges so disconnect batch setchange self =
     (if disconnect then
        andthen (if setchange \<and> batch = None
                 then andthen generateUUID (\<lambda>b. ret (Some b)) else ret batch) (\<lambda>batch'.
        andthen (bothE so self) (\<lambda>both.
        andthen (delete_edges setchange batch' (ilist both)) (\<lambda>_.
          ret batch')))
      else raise (GraphyDBException ''Node still connected. Delete Edges First''))"

definition Node_delete ::
  "('a val list \<Rightarrow> 'a val list) \<Rightarrow> bool \<Rightarrow> string option \<Rightarrow> bool \<Rightarrow> 'a item
     \<Rightarrow> ('a, 'a item) act" where
  "Node_delete so disconnect batch setchange self =
     andthen (outE_count self) (\<lambda>no.
     andthen (inE_count self) (\<lambda>ni.
     andthen (if no + ni > 0 then disconnect_edges so disconnect batch setchange self
              else ret batch) (\<lambda>batch'.
     andthen (attempt (getitem (idata self) ''uid'')) (\<lambda>u.
     andthen (delete_node_row u) (\<lambda>_.
     andthen (if setchange then addchange None (Some self) batch' else ret ()) (\<lambda>_.
     andthen (touch_mtime self) (\<lambda>self'.
       ret (setChanged True self'))))))))"

section \<open>Undo\<close>

text \<open>
  \<^verbatim>\<open>
  def undo(self):
      changes = []
      changebatch=reversed(self.lastchanges())
      for i, change in changebatch:
          if '+' in change and '-' not in change:
              action = "-"
              item = self.getuid(change['uid'])
              item.delete(setchange=False)
          elif '-' in change and '+' not in change:
              action = "+"
              data = change['-']
              if 'startuid' in data:
                  item = Edge(data, graph=self)
              else:
                  item = Node(data, graph=self)
              item.save(setchange=False)
          elif '-' in change and '+' in change:
              action = "*"
              item = self.getuid(change['uid'])
              item.data = patch(item.data, change, reverse=True)
              item.save(setchange=False, force=True)
          else:
              raise GraphyDBException('Unknown undo action')
          changes.append((action, change['uid']))
          self.deletechange(i)
      return changes
  \<close>
  \<^verbatim>\<open>item.delete\<close> and \<^verbatim>\<open>item.save\<close> are the methods of the class of the item; when
  \<^verbatim>\<open>getuid\<close> finds nothing, \<^verbatim>\<open>item\<close> is \<^verbatim>\<open>None\<close> and the call raises AttributeError.
\<close>

definition item_delete :: "('a val list \<Rightarrow> 'a val list) \<Rightarrow> 'a gitem option \<Rightarrow> ('a, 'a item) act" where
  "item_delete so item =
     (case item of
        None \<Rightarrow> raise AttributeError
      | Some (NodeObj n) \<Rightarrow> Node_delete so False None False n
      | Some (EdgeObj e) \<Rightarrow> Edge_delete False None e)"

definition item_restore :: "'a change \<Rightarrow> 'a gitem option \<Rightarrow> ('a, 'a item) act" where
  "item_restore change item =
     (case item of
        None \<Rightarrow> raise AttributeError
      | Some (NodeObj n) \<Rightarrow>
          andthen (attempt (patch (idata n) change True)) (\<lambda>d.
            Node_save True None False (n \<lparr> idata := d \<rparr>))
      | Some (EdgeObj e) \<Rightarrow>
          andthen (attempt (patch (idata e) change True)) (\<lambda>d.
            Edge_save True None False (e \<lparr> idata := d \<rparr>)))"

definition undo_change :: "('a val list \<Rightarrow> 'a val list) \<Rightarrow> 'a change \<Rightarrow> ('a, string) act" where
  "undo_change so change =
     (if plus change \<noteq> None \<and> minus change = None then
        andthen (getuid (c_uid change)) (\<lambda>item.
        andthen (item_delete so item) (\<lambda>_. ret ''-''))
      else if minus change \<noteq> None \<and> plus change = None then
        (let data = getdict (minus change)
         in if ''startuid'' \<in> dom data
            then andthen (Edge_init data True) (\<lambda>item.
                 andthen (Edge_save False None False item) (\<lambda>_. ret ''+''))
            else andthen (Node_init data True) (\<lambda>item.
                 andthen (Node_save False None False item) (\<lambda>_. ret ''+'')))
      else if minus change \<noteq> None \<and> plus change \<noteq> None then
        andthen (getuid (c_uid change)) (\<lambda>item.
        andthen (item_restore change item) (\<lambda>_. ret ''*''))
      else raise (GraphyDBException ''Unknown undo action''))"

fun undo_loop ::
  "('a val list \<Rightarrow> 'a val list) \<Rightarrow> (nat \<times> 'a change) list \<Rightarrow> (string \<times> 'a val) list
     \<Rightarrow> ('a, (string \<times> 'a val) list) act" where
  "undo_loop so [] done = ret done"
| "undo_loop so ((i, change) # rest) done =
     andthen (undo_change so change) (\<lambda>action.
     andthen (deletechange i) (\<lambda>_.
       undo_loop so rest (done @ [(action, c_uid change)])))"

definition undo :: "('a val list \<Rightarrow> 'a val list) \<Rightarrow> ('a, (string \<times> 'a val) list) act" where
  "undo so = andthen (query lastchanges) (\<lambda>batch. undo_loop so (rev batch) [])"

section \<open>Vocabulary of the statements about the store\<close>

text \<open>
  \<open>keeps R m\<close>: from every state, the operation \<open>m\<close> leads to a state related to it by
  \<open>R\<close>, whether it returns or raises.
\<close>

definition keeps :: "('a world \<Rightarrow> 'a world \<Rightarrow> bool) \<Rightarrow> ('a, 'r) act \<Rightarrow> bool" where
  "keeps R m \<longleftrightarrow> (\<forall>w. R w (snd (m w)))"

text \<open>The journal of the second state is that of the first.\<close>

definition same_journal :: "'a world \<Rightarrow> 'a world \<Rightarrow> bool" where
  "same_journal w w' \<longleftrightarrow> changes w' = changes w"

text \<open>
  Among the keys \<open>K\<close> that do not begin with an underscore, the two dictionaries differ in
  the value of \<^verbatim>\<open>mtime\<close> and in nothing else.
\<close>

definition mtime_differs :: "'a dict \<Rightarrow> 'a dict \<Rightarrow> string set \<Rightarrow> bool" where
  "mtime_differs d1 d2 K \<longleftrightarrow>
     ''mtime'' \<in> K \<and> d1 ''mtime'' \<noteq> None \<and> d2 ''mtime'' \<noteq> None \<and> d1 ''mtime'' \<noteq> d2 ''mtime''
     \<and> (\<forall>k \<in> K. k \<noteq> ''mtime'' \<and> hd k \<noteq> CHR ''_'' \<longrightarrow> d1 k = d2 k)"

text \<open>
  The rest of \<^verbatim>\<open>Node.save\<close> and of \<^verbatim>\<open>Edge.save\<close> once \<^verbatim>\<open>originalitem\<close> is read: the
  \<^verbatim>\<open>INSERT OR REPLACE\<close>, the change record and \<^verbatim>\<open>setChanged(False)\<close>
  (see \<open>Node_save_unfold\<close> and \<open>Edge_save_unfold\<close>).
\<close>

definition Node_store ::
  "string option \<Rightarrow> bool \<Rightarrow> 'a item \<Rightarrow> 'a dict \<Rightarrow> 'a gitem option \<Rightarrow> ('a, 'a item) act" where
  "Node_store batch setchange self data originalitem =
        andthen (attempt (getitem (idata self) ''uid'')) (\<lambda>u.
        andthen (attempt (getitem (idata self) ''kind'')) (\<lambda>k.
        andthen (attempt (getitem (idata self) ''ctime'')) (\<lambda>c.
        andthen (attempt (getitem (idata self) ''mtime'')) (\<lambda>m.
        andthen (replace_node \<lparr> n_uid = u, n_kind = k, n_ctime = c, n_mtime = m, n_data = data \<rparr>) (\<lambda>_.
        andthen (if setchange then addchange (Some self) (map_option the_item originalitem) batch
                 else ret ()) (\<lambda>_.
          ret (setChanged False self)))))))"

definition Edge_store ::
  "string option \<Rightarrow> bool \<Rightarrow> 'a item \<Rightarrow> 'a val \<Rightarrow> 'a val \<Rightarrow> 'a dict \<Rightarrow> 'a gitem option
     \<Rightarrow> ('a, 'a item) act" where
  "Edge_store batch setchange self s e data originalitem =
        andthen (attempt (getitem (idata self) ''uid'')) (\<lambda>u.
        andthen (attempt (getitem (idata self) ''kind'')) (\<lambda>k.
        andthen (attempt (getitem (idata self) ''ctime'')) (\<lambda>c.
        andthen (attempt (getitem (idata self) ''mtime'')) (\<lambda>m.
        andthen (replace_edge \<lparr> e_uid = u, e_startuid = s, e_kind = k, e_enduid = e,
                                 e_ctime = c, e_mtime = m, e_data = data \<rparr>) (\<lambda>_.
        andthen (if setchange then addchange (Some self) (map_option the_item originalitem) batch
                 else ret ()) (\<lambda>_.
          ret (setChanged False self)))))))"

section \<open>An example graph\<close>

text \<open>
  Two nodes \<open>a\<close> and \<open>b\<close> and an edge \<open>e\<close> from \<open>a\<close> to \<open>b\<close>, as \<^verbatim>\<open>save\<close> writes them,
  with an empty journal; the clock reads 10, 11, ... and the uuids are U, UU, ...
\<close>

definition node_a :: "unit noderow" where
  "node_a = \<lparr> n_uid = Str ''a'', n_kind = Str ''P'', n_ctime = Num 1, n_mtime = Num 1,
     n_data = [''uid'' \<mapsto> Str ''a'', ''kind'' \<mapsto> Str ''P'', ''ctime'' \<mapsto> Num 1, ''mtime'' \<mapsto> Num 1] \<rparr>"

definition node_b :: "unit noderow" where
  "node_b = \<lparr> n_uid = Str ''b'', n_kind = Str ''P'', n_ctime = Num 1, n_mtime = Num 1,
     n_data = [''uid'' \<mapsto> Str ''b'', ''kind'' \<mapsto> Str ''P'', ''ctime'' \<mapsto> Num 1, ''mtime'' \<mapsto> Num 1] \<rparr>"

definition edge_ab :: "unit edgerow" where
  "edge_ab = \<lparr> e_uid = Str ''e'', e_startuid = Str ''a'', e_kind = Str ''L'', e_enduid = Str ''b'',
     e_ctime = Num 2, e_mtime = Num 2,
     e_data = [''uid'' \<mapsto> Str ''e'', ''startuid'' \<mapsto> Str ''a'', ''kind'' \<mapsto> Str ''L'',
               ''enduid'' \<mapsto> Str ''b'', ''ctime'' \<mapsto> Num 2, ''mtime'' \<mapsto> Num 2] \<rparr>"

definition world0 :: "unit world" where
  "world0 = \<lparr> nodes = [node_a, node_b], edges = [edge_ab], changes = [], lastid = 0,
     clock = (\<lambda>n. 10 + real n), ticks = 0, uuids = (\<lambda>n. replicate (Suc n) (CHR ''U'')), drawn = 0 \<rparr>"

text \<open>The node \<open>a\<close> in memory, after \<^verbatim>\<open>a['mtime'] = 5\<close>.\<close>

definition item_a :: "unit item" where
  "item_a = \<lparr> idata = [''uid'' \<mapsto> Str ''a'', ''kind'' \<mapsto> Str ''P'', ''ctime'' \<mapsto> Num 1, ''mtime'' \<mapsto> Num 5],
     changedkeys = {''mtime''} \<rparr>"

text \<open>
  A new edge in memory whose \<^verbatim>\<open>startuid\<close> is the uid of the edge \<open>e\<close>, not of a node.
\<close>

definition item_f :: "unit item" where
  "item_f = \<lparr> idata = [''uid'' \<mapsto> Str ''f'', ''startuid'' \<mapsto> Str ''e'', ''kind'' \<mapsto> Str ''L'',
               ''enduid'' \<mapsto> Str ''b'', ''ctime'' \<mapsto> Num 3, ''mtime'' \<mapsto> Num 3],
      changedkeys = {''uid'', ''startuid'', ''kind'', ''enduid'', ''ctime'', ''mtime''} \<rparr>"

text \<open>
  A key is ephemeral when it begins with an underscore; a dictionary is persistable when
  none of its keys is ephemeral.
\<close>

definition ephemeral :: "string \<Rightarrow> bool" where
  "ephemeral k \<longleftrightarrow> k \<noteq> [] \<and> hd k = CHR ''_''"

definition persistable :: "'a dict \<Rightarrow> bool" where
  "persistable d \<longleftrightarrow> (\<forall>k \<in> dom d. \<not> ephemeral k)"

text \<open>
  \<open>clean_writes w w'\<close>: every row of \<^verbatim>\<open>nodes\<close> and of \<^verbatim>\<open>edges\<close> and every change record that
  the second state has and the first has not holds persistable dictionaries only.
\<close>

definition clean_writes :: "'a world \<Rightarrow> 'a world \<Rightarrow> bool" where
  "clean_writes w w' \<longleftrightarrow>
     (\<forall>r \<in> set (nodes w') - set (nodes w). persistable (n_data r))
     \<and> (\<forall>r \<in> set (edges w') - set (edges w). persistable (e_data r))
     \<and> (\<forall>(i, c) \<in> set (changes w') - set (changes w).
           persistable (getdict (plus c)) \<and> persistable (getdict (minus c)))"

text \<open>
  A relation between states that holds across reading the clock and drawing a uuid; then
  it holds across every query.
\<close>

definition reading :: "('a world \<Rightarrow> 'a world \<Rightarrow> bool) \<Rightarrow> bool" where
  "reading R \<longleftrightarrow> reflp R \<and> transp R \<and> keeps R time_time \<and> keeps R generateUUID"

text \<open>The node \<open>a\<close> in memory with a new \<^verbatim>\<open>mtime\<close> and an ephemeral key.\<close>

definition item_t :: "unit item" where
  "item_t = \<lparr> idata = [''uid'' \<mapsto> Str ''a'', ''kind'' \<mapsto> Str ''P'', ''ctime'' \<mapsto> Num 1,
                 ''mtime'' \<mapsto> Num 5, ''_tmp'' \<mapsto> Num 7],
     changedkeys = {''mtime'', ''_tmp''} \<rparr>"

text \<open>The node \<open>a\<close> with a self-loop \<open>l\<close>.\<close>

definition edge_aa :: "unit edgerow" where
  "edge_aa = \<lparr> e_uid = Str ''l'', e_startuid = Str ''a'', e_kind = Str ''L'', e_enduid = Str ''a'',
     e_ctime = Num 2, e_mtime = Num 2,
     e_data = [''uid'' \<mapsto> Str ''l'', ''startuid'' \<mapsto> Str ''a'', ''kind'' \<mapsto> Str ''L'',
               ''enduid'' \<mapsto> Str ''a'', ''ctime'' \<mapsto> Num 2, ''mtime'' \<mapsto> Num 2] \<rparr>"

definition world_loop :: "unit world" where
  "world_loop = \<lparr> nodes = [node_a], edges = [edge_aa], changes = [], lastid = 0,
     clock = (\<lambda>n. 10 + real n), ticks = 0, uuids = (\<lambda>n. replicate (Suc n) (CHR ''U'')), drawn = 0 \<rparr>"

definition loop_set :: "(unit val, unit item) indexedset" where
  "loop_set = \<lparr> ilist = [\<lparr> idata = e_data edge_aa, changedkeys = {} \<rparr>],
                 iindex = [(Str ''l'', \<lparr> idata = e_data edge_aa, changedkeys = {} \<rparr>)] \<rparr>"






section \<open>Properties of diff and patch\<close>

lemma diff_total: "diff d1 d2 K = Inl e \<longleftrightarrow> e = IndexError \<and> [] \<in> dom d1 \<union> dom d2"
  by (auto simp: diff_def Let_def)

lemma diff_remove_dom: "dom (diff_remove d1 d2 K) \<subseteq> dom d1"
  by (auto simp: diff_remove_def dom_def split: if_splits)

lemma diff_add_dom: "dom (diff_add d1 d2 K) \<subseteq> dom d2"
  by (auto simp: diff_add_def dom_def split: if_splits)

lemma diff_result:
  assumes "diff d1 d2 K = Inr c" and "\<not> mtime_only (diff_remove d1 d2 K) (diff_add d1 d2 K)"
  shows "getdict (plus c) = diff_add d1 d2 K" and "getdict (minus c) = diff_remove d1 d2 K"
  using assms by (auto simp: diff_def Let_def getdict_def split: if_splits)

lemma diff_suppressed:
  assumes "diff d1 d2 K = Inr c" and "mtime_only (diff_remove d1 d2 K) (diff_add d1 d2 K)"
  shows "plus c = None" and "minus c = None"
  using assms by (auto simp: diff_def Let_def split: if_splits)

lemma patch_forward:
  assumes nu: "\<forall>k \<in> dom d1 \<union> dom d2. hd k \<noteq> CHR ''_''"
  shows "(d1 |` (- dom (diff_remove d1 d2 K))) ++ diff_add d1 d2 K
           = (\<lambda>k. if k \<in> K then d2 k else d1 k)"
proof (rule ext)
  fix k
  show "((d1 |` (- dom (diff_remove d1 d2 K))) ++ diff_add d1 d2 K) k
          = (if k \<in> K then d2 k else d1 k)"
    using nu
    by (cases "d1 k"; cases "d2 k")
       (auto simp: map_add_def restrict_map_def diff_remove_def diff_add_def dom_def
             split: option.splits)
qed

lemma patch_backward:
  assumes nu: "\<forall>k \<in> dom d1 \<union> dom d2. hd k \<noteq> CHR ''_''"
  shows "((\<lambda>k. if k \<in> K then d2 k else d1 k) |` (- dom (diff_add d1 d2 K)))
            ++ diff_remove d1 d2 K = d1"
proof (rule ext)
  fix k
  show "(((\<lambda>k. if k \<in> K then d2 k else d1 k) |` (- dom (diff_add d1 d2 K)))
            ++ diff_remove d1 d2 K) k = d1 k"
    using nu
    by (cases "d1 k"; cases "d2 k")
       (auto simp: map_add_def restrict_map_def diff_remove_def diff_add_def dom_def
             split: option.splits)
qed

lemma diff_patch_returned:
  assumes "\<forall>k \<in> dom d1 \<union> dom d2. hd k \<noteq> CHR ''_''"
    and "diff d1 d2 K = Inr c"
    and "\<not> mtime_only (diff_remove d1 d2 K) (diff_add d1 d2 K)"
  shows "patch d1 c False = Inr (\<lambda>k. if k \<in> K then d2 k else d1 k)
       \<and> patch (\<lambda>k. if k \<in> K then d2 k else d1 k) c True = Inr d1"
proof -
  note r = diff_result [OF assms(2,3)]
  have fwd: "patch d1 c False = Inr (\<lambda>k. if k \<in> K then d2 k else d1 k)"
    using diff_remove_dom [of d1 d2 K] patch_forward [OF assms(1), of K]
    by (simp add: patch_def r)
  have sub: "dom (diff_add d1 d2 K) \<subseteq> dom (\<lambda>k. if k \<in> K then d2 k else d1 k)"
    by (auto simp: diff_add_def dom_def split: if_splits)
  have bwd: "patch (\<lambda>k. if k \<in> K then d2 k else d1 k) c True = Inr d1"
    using sub patch_backward [OF assms(1), of K] by (simp add: patch_def r)
  show ?thesis using fwd bwd by simp
qed

lemma diff_returns: "[] \<notin> dom d1 \<union> dom d2 \<Longrightarrow> \<exists>c. diff d1 d2 K = Inr c"
  by (simp add: diff_def Let_def)

text \<open>
  Claim C10, as the code has it. For dictionaries \<open>d1\<close>, \<open>d2\<close> whose keys are not empty and
  do not begin with an underscore and for any key set \<open>K\<close>, \<open>diff d1 d2 K\<close> returns a change
  \<open>c\<close>; when \<open>c\<close> is not the suppressed mtime-only diff, \<open>patch d1 c\<close> is \<open>d1\<close> made to agree
  with \<open>d2\<close> on the keys of \<open>K\<close>, and patching the result with \<open>c\<close> in reverse gives \<open>d1\<close>
  back.
\<close>

theorem diff_patch_roundtrip:
  assumes "\<forall>k \<in> dom d1 \<union> dom d2. k \<noteq> [] \<and> hd k \<noteq> CHR ''_''"
    and "\<not> mtime_only (diff_remove d1 d2 K) (diff_add d1 d2 K)"
  shows "\<exists>c. diff d1 d2 K = Inr c
           \<and> patch d1 c False = Inr (\<lambda>k. if k \<in> K then d2 k else d1 k)
           \<and> patch (\<lambda>k. if k \<in> K then d2 k else d1 k) c True = Inr d1"
proof -
  from assms(1) have "[] \<notin> dom d1 \<union> dom d2" by blast
  then obtain c where c: "diff d1 d2 K = Inr c" using diff_returns by blast
  from assms(1) have nu: "\<forall>k \<in> dom d1 \<union> dom d2. hd k \<noteq> CHR ''_''" by blast
  from diff_patch_returned [OF nu c assms(2)] c show ?thesis by blast
qed

theorem diff_patch_roundtrip_witness:
  "\<exists>c. diff [''x'' \<mapsto> Num 1] [''x'' \<mapsto> (Num 2 :: unit val)] {''x''} = Inr c
      \<and> patch [''x'' \<mapsto> Num 1] c False
           = Inr (\<lambda>k. if k \<in> {''x''} then [''x'' \<mapsto> Num 2] k else [''x'' \<mapsto> Num 1] k)
      \<and> patch (\<lambda>k. if k \<in> {''x''} then [''x'' \<mapsto> Num 2] k else [''x'' \<mapsto> Num 1] k) c True
           = Inr [''x'' \<mapsto> Num 1]"
proof -
  let ?d1 = "[''x'' \<mapsto> Num 1] :: unit dict" and ?d2 = "[''x'' \<mapsto> Num 2] :: unit dict"
  have r: "diff_remove ?d1 ?d2 {''x''} = ?d1" by (rule ext) (simp add: diff_remove_def)
  have a: "diff_add ?d1 ?d2 {''x''} = ?d2" by (rule ext) (simp add: diff_add_def)
  have h1: "\<forall>k \<in> dom ?d1 \<union> dom ?d2. k \<noteq> [] \<and> hd k \<noteq> CHR ''_''" by simp
  have h2: "\<not> mtime_only (diff_remove ?d1 ?d2 {''x''}) (diff_add ?d1 ?d2 {''x''})"
    by (simp add: r a mtime_only_def)
  show ?thesis by (rule diff_patch_roundtrip [OF h1 h2])
qed

text \<open>
  The empty string is a key that does not begin with an underscore; \<^verbatim>\<open>k[0]\<close> raises
  IndexError on it, so \<open>diff\<close> returns no change at all.
\<close>

theorem diff_patch_roundtrip_counterexample:
  "diff [[] \<mapsto> Num 1] Map.empty {[]} = (Inl IndexError :: error + unit delta)"
  by (simp add: diff_def)

section \<open>Properties of IndexedSet\<close>

lemma index_of_snoc: "index_of uid (xs @ [x]) = AList.update (uid x) x (index_of uid xs)"
  by (simp add: index_of_def)

lemma firsts_snoc: "firsts (ks @ [k]) = (if k \<in> set ks then firsts ks else firsts ks @ [k])"
  by (simp add: firsts_def)

lemma index_of_keys: "map fst (index_of uid xs) = firsts (map uid xs)"
proof (induction xs rule: rev_induct)
  case Nil show ?case by (simp add: index_of_def firsts_def)
next
  case (snoc x xs)
  have "set (firsts (map uid xs)) = uid ` set xs" by (simp add: firsts_def)
  with snoc show ?case
    by (simp add: index_of_snoc firsts_snoc update_keys)
qed

lemma index_of_distinct: "distinct (map fst (index_of uid xs))"
  by (simp add: index_of_keys firsts_def)

lemma index_of_lookup:
  "map_of (index_of uid xs) k =
     (if k \<in> uid ` set xs then Some (latest uid xs k) else None)"
proof (induction xs rule: rev_induct)
  case Nil show ?case by (simp add: index_of_def)
next
  case (snoc x xs)
  show ?case
  proof (cases "k = uid x")
    case True
    then show ?thesis by (simp add: index_of_snoc update_conv' latest_def)
  next
    case False
    then have l: "latest uid (xs @ [x]) k = latest uid xs k" by (simp add: latest_def)
    have m: "map_of (index_of uid (xs @ [x])) k = map_of (index_of uid xs) k"
      using False by (simp add: index_of_snoc update_conv')
    have i: "k \<in> uid ` set (xs @ [x]) \<longleftrightarrow> k \<in> uid ` set xs"
      using False by auto
    show ?thesis unfolding m l i by (rule snoc)
  qed
qed

lemma alist_values: "distinct (map fst al) \<Longrightarrow> map snd al = map (\<lambda>k. the (map_of al k)) (map fst al)"
proof (induction al)
  case Nil show ?case by simp
next
  case (Cons p al)
  obtain k v where p: "p = (k, v)" by (cases p)
  from Cons.prems p have fresh: "k \<notin> set (map fst al)" and d: "distinct (map fst al)" by simp_all
  have "map (\<lambda>k'. the (map_of (p # al) k')) (map fst al)
          = map (\<lambda>k'. the (map_of al k')) (map fst al)"
    using fresh by (intro map_cong refl) (auto simp: p)
  with Cons.IH [OF d] show ?case by (simp add: p)
qed

lemma index_of_values:
  "map snd (index_of uid xs) = map (latest uid xs) (firsts (map uid xs))"
proof -
  have "map snd (index_of uid xs)
          = map (\<lambda>k. the (map_of (index_of uid xs) k)) (map fst (index_of uid xs))"
    by (rule alist_values) (rule index_of_distinct)
  also have "\<dots> = map (latest uid xs) (firsts (map uid xs))"
    by (simp add: index_of_keys index_of_lookup firsts_def)
  finally show ?thesis .
qed

lemma update_fresh: "k \<notin> fst ` set al \<Longrightarrow> AList.update k v al = al @ [(k, v)]"
  by (induction al) auto

lemma index_of_distinct_items:
  "distinct (map uid xs) \<Longrightarrow> index_of uid xs = map (\<lambda>x. (uid x, x)) xs"
proof (induction xs rule: rev_induct)
  case Nil show ?case by (simp add: index_of_def)
next
  case (snoc x xs)
  then have "uid x \<notin> fst ` set (map (\<lambda>x. (uid x, x)) xs)" by (auto simp: image_iff)
  with snoc show ?case by (simp add: index_of_snoc update_fresh)
qed

lemma index_of_length: "length (index_of uid xs) = length xs \<longleftrightarrow> distinct (map uid xs)"
proof -
  have "length (index_of uid xs) = length (map fst (index_of uid xs))" by simp
  also have "\<dots> = length (remdups (rev (map uid xs)))" by (simp add: index_of_keys firsts_def)
  also have "\<dots> = card (set (map uid xs))" by (simp add: length_remdups_card_conv)
  finally have "length (index_of uid xs) = card (set (map uid xs))" .
  then show ?thesis
    by (metis card_distinct distinct_card length_map)
qed

lemma IndexedSet_list: "ilist (IndexedSet uid it) = map snd (index_of uid (elements it))"
proof (cases it)
  case (Sequence xs)
  show ?thesis
  proof (cases "distinct (map uid xs)")
    case True
    then show ?thesis using Sequence index_of_length [of uid xs]
      by (simp add: IndexedSet_def Let_def index_of_distinct_items comp_def)
  next
    case False
    then show ?thesis using Sequence index_of_length [of uid xs]
      by (simp add: IndexedSet_def Let_def)
  qed
next
  case (Generator xs)
  then show ?thesis by (auto simp: IndexedSet_def Let_def)
qed

text \<open>
  Claim C9, as the code has it. Constructing an IndexedSet from any iterable succeeds; the
  result holds one element for each uid, at the position of the first occurrence of the
  uid, and that element is the last item of the iterable with the uid (the dictionary
  comprehension overwrites the value and keeps the place of the key), not the first.
\<close>

theorem IndexedSet_duplicates:
  "ilist (IndexedSet uid it) = map (latest uid (elements it)) (firsts (map uid (elements it)))
   \<and> map fst (iindex (IndexedSet uid it)) = firsts (map uid (elements it))
   \<and> map snd (iindex (IndexedSet uid it)) = ilist (IndexedSet uid it)"
proof -
  have "iindex (IndexedSet uid it) = index_of uid (elements it)"
    by (simp add: IndexedSet_def Let_def)
  then show ?thesis
    by (simp add: IndexedSet_list index_of_values index_of_keys)
qed

text \<open>
  With two items of uid \<open>a\<close>, the set holds the later one; keeping the first occurrence
  would hold the earlier one.
\<close>

theorem IndexedSet_duplicates_counterexample:
  "ilist (IndexedSet fst (Sequence [(''a'', 1::nat), (''b'', 2), (''a'', 3)]))
     = [(''a'', 3), (''b'', 2)]
   \<and> ilist (IndexedSet fst (Sequence [(''a'', 1::nat), (''b'', 2), (''a'', 3)]))
     \<noteq> map (earliest fst [(''a'', 1::nat), (''b'', 2), (''a'', 3)])
           (firsts (map fst [(''a'', 1::nat), (''b'', 2), (''a'', 3)]))"
  by (simp add: IndexedSet_def index_of_def earliest_def firsts_def)

lemma conditionalyield_all:
  "set keys \<subseteq> fst ` set A \<union> fst ` set B \<Longrightarrow> conditionalyield keys A B = Inr (map (pick A B) keys)"
proof (induction keys)
  case Nil show ?case by simp
next
  case (Cons k keys)
  then have k: "k \<in> fst ` set A \<union> fst ` set B" and IH: "conditionalyield keys A B = Inr (map (pick A B) keys)"
    by simp_all
  show ?case
  proof (cases "map_of A k")
    case (Some x)
    then show ?thesis by (simp add: IH pick_def)
  next
    case None
    then have "k \<notin> fst ` set A" by (simp add: map_of_eq_None_iff)
    with k have "k \<in> fst ` set B" by simp
    then obtain y where "map_of B k = Some y"
      by (metis map_of_eq_None_iff not_Some_eq)
    with None show ?thesis by (simp add: IH pick_def)
  qed
qed

lemma pick_uid:
  assumes "consistent uid A" "consistent uid B" "k \<in> fst ` set (iindex A) \<union> fst ` set (iindex B)"
  shows "uid (pick (iindex A) (iindex B) k) = k"
proof (cases "map_of (iindex A) k")
  case (Some x)
  then have "(k, x) \<in> set (iindex A)" by (rule map_of_SomeD)
  with assms(1) have "uid x = k" by (auto simp: consistent_def)
  with Some show ?thesis by (simp add: pick_def)
next
  case None
  then have "k \<notin> fst ` set (iindex A)" by (simp add: map_of_eq_None_iff)
  with assms(3) have "k \<in> fst ` set (iindex B)" by simp
  then obtain y where y: "map_of (iindex B) k = Some y"
    by (metis map_of_eq_None_iff not_Some_eq)
  then have "(k, y) \<in> set (iindex B)" by (rule map_of_SomeD)
  with assms(2) have "uid y = k" by (auto simp: consistent_def)
  with None y show ?thesis by (simp add: pick_def)
qed

lemma IndexedSet_Generator_distinct:
  "distinct (map uid ys) \<Longrightarrow>
     IndexedSet uid (Generator ys) = \<lparr> ilist = ys, iindex = map (\<lambda>x. (uid x, x)) ys \<rparr>"
  by (cases ys) (simp_all add: IndexedSet_def Let_def index_of_distinct_items comp_def)

text \<open>
  Claim C2, as the code has it. The union of two sets holds, for each uid of either
  operand, the element of the left operand if it has the uid and that of the right
  operand otherwise, each uid once; the elements stand in the order in which the Python
  set of the uids yields them, whatever that order is.
\<close>

theorem IndexedSet_or_order:
  assumes "set_order so" and "consistent uid A" and "consistent uid B"
  shows "IndexedSet_or so uid A B
           = Inr \<lparr> ilist = map (pick (iindex A) (iindex B)) (union_keys so A B),
                   iindex = map (\<lambda>k. (k, pick (iindex A) (iindex B) k)) (union_keys so A B) \<rparr>
         \<and> map uid (map (pick (iindex A) (iindex B)) (union_keys so A B)) = union_keys so A B
         \<and> distinct (union_keys so A B)
         \<and> set (union_keys so A B) = fst ` set (iindex A) \<union> fst ` set (iindex B)"
proof -
  let ?keys = "union_keys so A B"
  let ?ys = "map (pick (iindex A) (iindex B)) ?keys"
  from assms(1) have d: "distinct ?keys"
    and s: "set ?keys = fst ` set (iindex A) \<union> fst ` set (iindex B)"
    by (simp_all add: set_order_def union_keys_def)
  have cy: "conditionalyield ?keys (iindex A) (iindex B) = Inr ?ys"
    by (rule conditionalyield_all) (simp add: s)
  have "map (\<lambda>k. uid (pick (iindex A) (iindex B) k)) ?keys = ?keys"
    by (rule map_idI) (use pick_uid [OF assms(2,3)] s in auto)
  then have u: "map uid ?ys = ?keys" by (simp add: comp_def)
  then have dy: "distinct (map uid ?ys)" using d by simp
  have "map (\<lambda>x. (uid x, x)) ?ys = map (\<lambda>k. (uid (pick (iindex A) (iindex B) k), pick (iindex A) (iindex B) k)) ?keys"
    by (simp add: comp_def)
  also have "\<dots> = map (\<lambda>k. (k, pick (iindex A) (iindex B) k)) ?keys"
    by (rule map_cong [OF refl]) (use pick_uid [OF assms(2,3)] s in auto)
  finally have ix: "map (\<lambda>x. (uid x, x)) ?ys = map (\<lambda>k. (k, pick (iindex A) (iindex B) k)) ?keys" .
  have r: "IndexedSet_or so uid A B
             = Inr \<lparr> ilist = ?ys, iindex = map (\<lambda>k. (k, pick (iindex A) (iindex B) k)) ?keys \<rparr>"
    using IndexedSet_Generator_distinct [OF dy] ix
    by (simp add: IndexedSet_or_def cy union_keys_def [symmetric])
  from r u d s show ?thesis by blast
qed

theorem IndexedSet_or_order_witness:
  "IndexedSet_or (\<lambda>ks. rev (remdups ks)) fst
      \<lparr> ilist = [(''a'', 1::nat), (''b'', 2)], iindex = [(''a'', (''a'', 1)), (''b'', (''b'', 2))] \<rparr>
      \<lparr> ilist = [(''c'', 3)], iindex = [(''c'', (''c'', 3))] \<rparr>
     = Inr \<lparr> ilist = [(''c'', 3), (''b'', 2), (''a'', 1)],
             iindex = [(''c'', (''c'', 3)), (''b'', (''b'', 2)), (''a'', (''a'', 1))] \<rparr>"
proof -
  let ?so = "\<lambda>ks :: string list. rev (remdups ks)"
  let ?A = "\<lparr> ilist = [(''a'', 1::nat), (''b'', 2)], iindex = [(''a'', (''a'', 1)), (''b'', (''b'', 2))] \<rparr>"
  let ?B = "\<lparr> ilist = [(''c'', 3::nat)], iindex = [(''c'', (''c'', 3))] \<rparr>"
  have h1: "set_order ?so" by (simp add: set_order_def)
  have h2: "consistent fst ?A" by (simp add: consistent_def)
  have h3: "consistent fst ?B" by (simp add: consistent_def)
  have k: "union_keys ?so ?A ?B = [''c'', ''b'', ''a'']" by (simp add: union_keys_def)
  from IndexedSet_or_order [OF h1 h2 h3] have
    "IndexedSet_or ?so fst ?A ?B
       = Inr \<lparr> ilist = map (pick (iindex ?A) (iindex ?B)) (union_keys ?so ?A ?B),
               iindex = map (\<lambda>k. (k, pick (iindex ?A) (iindex ?B) k)) (union_keys ?so ?A ?B) \<rparr>"
    by (rule conjunct1)
  then show ?thesis unfolding k by (simp add: pick_def)
qed

text \<open>
  Where the set of uids yields \<open>c, b, a\<close>, the union of \<open>[a, b]\<close> and \<open>[c]\<close> is \<open>[c, b, a]\<close>,
  not the left operand first.
\<close>

theorem IndexedSet_or_order_counterexample:
  "IndexedSet_or (\<lambda>ks. rev (remdups ks)) fst
      (IndexedSet fst (Sequence [(''a'', 1::nat), (''b'', 2)])) (IndexedSet fst (Sequence [(''c'', 3)]))
     = Inr \<lparr> ilist = [(''c'', 3), (''b'', 2), (''a'', 1)],
             iindex = [(''c'', (''c'', 3)), (''b'', (''b'', 2)), (''a'', (''a'', 1))] \<rparr>
   \<and> [(''c'', 3), (''b'', 2), (''a'', 1)]
     \<noteq> left_first fst (IndexedSet fst (Sequence [(''a'', 1::nat), (''b'', 2)]))
          (IndexedSet fst (Sequence [(''c'', 3)]))"
  by (simp add: IndexedSet_or_def union_keys_def IndexedSet_def index_of_def left_first_def)

section \<open>Properties of the chain parser\<close>





lemma set_kind_aliasname: "aliasname (set_kind tmp item) = aliasname item"
  by (simp add: set_kind_def)










section \<open>Properties of the store\<close>

lemma andthen_ret [simp]: "andthen (ret x) f = f x"
  by (rule ext) (simp add: andthen_def ret_def)

lemma andthen_raise [simp]: "andthen (raise e) f = raise e"
  by (rule ext) (simp add: andthen_def raise_def)

lemma attempt_simps [simp]: "attempt (Inr x) = ret x" "attempt (Inl e) = raise e"
  by (simp_all add: attempt_def)

lemma andthen_apply:
  "andthen m f w = (case m w of (Inl e, w') \<Rightarrow> (Inl e, w') | (Inr x, w') \<Rightarrow> f x w')"
  by (simp add: andthen_def)

lemma andthen_Inr: "m w = (Inr x, w') \<Longrightarrow> andthen m f w = f x w'"
  by (simp add: andthen_def)

lemma andthen_Inl: "m w = (Inl e, w') \<Longrightarrow> andthen m f w = (Inl e, w')"
  by (simp add: andthen_def)

lemma keeps_ret: "reflp R \<Longrightarrow> keeps R (ret x)"
  by (simp add: keeps_def ret_def reflp_def)

lemma keeps_raise: "reflp R \<Longrightarrow> keeps R (raise e)"
  by (simp add: keeps_def raise_def reflp_def)

lemma keeps_attempt: "reflp R \<Longrightarrow> keeps R (attempt r)"
  by (cases r) (simp_all add: keeps_ret keeps_raise)

lemma keeps_andthen:
  assumes "transp R" and "keeps R m" and "\<And>x. keeps R (f x)"
  shows "keeps R (andthen m f)"
proof -
  have "R w (snd (andthen m f w))" for w
  proof (cases "m w")
    case (Pair r w')
    from assms(2) Pair have 1: "R w w'" by (auto simp: keeps_def dest: spec [of _ w])
    show ?thesis
    proof (cases r)
      case (Inl e)
      with Pair 1 show ?thesis by (simp add: andthen_def)
    next
      case (Inr x)
      from assms(3) [of x] have "R w' (snd (f x w'))" by (simp add: keeps_def)
      with 1 assms(1) have "R w (snd (f x w'))" by (meson transpE)
      with Pair Inr show ?thesis by (simp add: andthen_def)
    qed
  qed
  then show ?thesis by (simp add: keeps_def)
qed

lemma keeps_D: "keeps R m \<Longrightarrow> m w = (r, w') \<Longrightarrow> R w w'"
  by (auto simp: keeps_def dest: spec [of _ w])

lemma same_journal_refl: "reflp same_journal"
  by (simp add: reflp_def same_journal_def)

lemma same_journal_trans: "transp same_journal"
  by (simp add: transp_def same_journal_def)

lemmas sj = same_journal_refl same_journal_trans

lemma sj_time: "keeps same_journal time_time"
  by (simp add: keeps_def time_time_def same_journal_def)

lemma sj_uuid: "keeps same_journal generateUUID"
  by (simp add: keeps_def generateUUID_def same_journal_def)

lemma keeps_if: "(c \<Longrightarrow> keeps R a) \<Longrightarrow> (\<not> c \<Longrightarrow> keeps R b) \<Longrightarrow> keeps R (if c then a else b)"
  by simp

lemma keeps_option:
  "keeps R a \<Longrightarrow> (\<And>x. keeps R (b x)) \<Longrightarrow> keeps R (case opt of None \<Rightarrow> a | Some x \<Rightarrow> b x)"
  by (cases opt) simp_all

lemma keeps_gitem:
  "(\<And>x. keeps R (a x)) \<Longrightarrow> (\<And>x. keeps R (b x)) \<Longrightarrow> keeps R (case g of NodeObj x \<Rightarrow> a x | EdgeObj x \<Rightarrow> b x)"
  by (cases g) simp_all

lemma keeps_query: "reflp R \<Longrightarrow> keeps R (query f)"
  by (simp add: keeps_def query_def reflp_def)

lemmas keeps_rules = keeps_andthen keeps_ret keeps_raise keeps_attempt keeps_if keeps_option
  keeps_gitem keeps_query

lemma sj_init: "keeps same_journal (GraphyDBItem_init d c)"
  unfolding GraphyDBItem_init_def default_uid_def default_time_def
  by (intro keeps_rules sj sj_time sj_uuid)

lemma sj_Node_init: "keeps same_journal (Node_init d c)"
  unfolding Node_init_def by (intro keeps_rules sj sj_init)

lemma sj_Edge_init: "keeps same_journal (Edge_init d c)"
  unfolding Edge_init_def by (intro keeps_rules sj sj_init)

lemma sj_materialize:
  "(\<And>d c. keeps same_journal (init d c)) \<Longrightarrow> keeps same_journal (materialize init ds)"
proof (induction ds)
  case Nil
  show ?case by (simp add: keeps_ret sj)
next
  case (Cons d ds)
  show ?case unfolding materialize.simps
    by (intro keeps_rules sj Cons)
qed

lemma sj_fetch_items:
  "(\<And>d c. keeps same_journal (init d c)) \<Longrightarrow> keeps same_journal (fetch_items init ds)"
  unfolding fetch_items_def by (intro keeps_rules sj sj_materialize)

lemma sj_getuid: "keeps same_journal (getuid u)"
  unfolding getuid_def
  by (intro keeps_rules sj sj_fetch_items sj_Node_init sj_Edge_init)

lemma sj_original: "keeps same_journal (original self)"
  unfolding original_def by (intro keeps_rules sj sj_getuid)

lemma sj_replace_node: "keeps same_journal (replace_node r)"
  by (simp add: keeps_def replace_node_def same_journal_def)

lemma sj_replace_edge: "keeps same_journal (replace_edge r)"
  by (simp add: keeps_def replace_edge_def same_journal_def)

lemma mtime_hd: "hd ''mtime'' \<noteq> CHR ''_''"
  by simp

lemma diff_remove_mtime:
  assumes "mtime_differs d1 d2 K"
  shows "diff_remove d1 d2 K k = (if k = ''mtime'' then d1 ''mtime'' else None)"
proof (cases "k = ''mtime''")
  case True
  from assms have "''mtime'' \<in> K" "''mtime'' \<in> dom d1" "''mtime'' \<in> dom d2"
    "d1 ''mtime'' \<noteq> d2 ''mtime''"
    by (simp_all add: mtime_differs_def domIff)
  then show ?thesis unfolding True diff_remove_def using mtime_hd by simp
next
  case False
  show ?thesis
  proof (cases "k \<in> K \<and> hd k \<noteq> CHR ''_''")
    case True
    with False assms have "d1 k = d2 k" by (simp add: mtime_differs_def)
    then show ?thesis using False by (simp add: diff_remove_def domIff)
  next
    case False': False
    then show ?thesis using False by (auto simp: diff_remove_def)
  qed
qed

lemma diff_add_mtime:
  assumes "mtime_differs d1 d2 K"
  shows "diff_add d1 d2 K k = (if k = ''mtime'' then d2 ''mtime'' else None)"
proof (cases "k = ''mtime''")
  case True
  from assms have "''mtime'' \<in> K" "''mtime'' \<in> dom d1" "''mtime'' \<in> dom d2"
    "d1 ''mtime'' \<noteq> d2 ''mtime''"
    by (simp_all add: mtime_differs_def domIff)
  then show ?thesis unfolding True diff_add_def using mtime_hd by simp
next
  case False
  show ?thesis
  proof (cases "k \<in> K \<and> hd k \<noteq> CHR ''_''")
    case True
    with False assms have "d1 k = d2 k" by (simp add: mtime_differs_def)
    then show ?thesis using False by (simp add: diff_add_def domIff)
  next
    case False': False
    then show ?thesis using False by (auto simp: diff_add_def)
  qed
qed

lemma mtime_differs_only:
  assumes "mtime_differs d1 d2 K"
  shows "mtime_only (diff_remove d1 d2 K) (diff_add d1 d2 K)"
proof -
  from assms have n: "d1 ''mtime'' \<noteq> None" "d2 ''mtime'' \<noteq> None"
    by (simp_all add: mtime_differs_def)
  have r: "dom (diff_remove d1 d2 K) = {''mtime''}"
    unfolding dom_def diff_remove_mtime [OF assms] using n by (auto split: if_splits)
  have a: "dom (diff_add d1 d2 K) = {''mtime''}"
    unfolding dom_def diff_add_mtime [OF assms] using n by (auto split: if_splits)
  show ?thesis by (simp add: mtime_only_def r a)
qed

lemma sj_addchange_mtime:
  assumes "mtime_differs (idata old) (idata new) (changedkeys new)"
  shows "keeps same_journal (addchange (Some new) (Some old) batch)"
proof (cases "diff (idata old) (idata new) (changedkeys new)")
  case (Inl e)
  then show ?thesis by (simp add: addchange_def keeps_raise sj)
next
  case (Inr d)
  from diff_suppressed [OF Inr mtime_differs_only [OF assms]]
  show ?thesis using Inr by (simp add: addchange_def keeps_ret sj)
qed

lemma Node_save_unfold:
  "Node_save force batch setchange self =
     (if \<not> force \<and> changedkeys self = {} then ret self
      else
        andthen (attempt (cleandata (idata self))) (\<lambda>data.
        andthen (if setchange then original self else ret None)
          (Node_store batch setchange self data)))"
  unfolding Node_save_def Node_store_def ..

lemma Edge_save_unfold:
  "Edge_save force batch setchange self =
     (if \<not> force \<and> changedkeys self = {} then ret self
      else
        andthen (attempt (getitem (idata self) ''startuid'')) (\<lambda>s.
        andthen (query (Graph_exists s)) (\<lambda>found.
        andthen (if \<not> found
                 then raise (GraphyDBException ''start node referenced from edge does not exist in DB.'')
                 else ret ()) (\<lambda>_.
        andthen (attempt (getitem (idata self) ''enduid'')) (\<lambda>e.
        andthen (query (Graph_exists e)) (\<lambda>found.
        andthen (if \<not> found
                 then raise (GraphyDBException ''end node referenced from edge does not exist in DB.'')
                 else ret ()) (\<lambda>_.
        andthen (attempt (cleandata (idata self))) (\<lambda>data.
        andthen (if setchange then original self else ret None)
          (Edge_store batch setchange self s e data)))))))))"
  unfolding Edge_save_def Edge_store_def ..

lemma keeps_snd: "keeps same_journal m \<Longrightarrow> changes (snd (m w)) = changes w"
  by (simp add: keeps_def same_journal_def)

lemma sj_Node_store_mtime:
  assumes "mtime_differs (idata (the_item old)) (idata self) (changedkeys self)"
  shows "keeps same_journal (Node_store batch True self data (Some old))"
  unfolding Node_store_def
  by (intro keeps_rules sj sj_replace_node) (simp add: sj_addchange_mtime [OF assms])

lemma sj_Edge_store_mtime:
  assumes "mtime_differs (idata (the_item old)) (idata self) (changedkeys self)"
  shows "keeps same_journal (Edge_store batch True self s e data (Some old))"
  unfolding Edge_store_def
  by (intro keeps_rules sj sj_replace_edge) (simp add: sj_addchange_mtime [OF assms])

lemma keeps_known:
  assumes "transp R" and "keeps R m" and "m w = (Inr x, w1)" and "keeps R (f x)"
  shows "R w (snd (andthen m f w))"
proof -
  have "R w w1" using assms(2,3) by (rule keeps_D)
  moreover have "R w1 (snd (f x w1))" using assms(4) by (simp add: keeps_def)
  ultimately show ?thesis using assms(1,3) by (simp add: andthen_Inr) (meson transpE)
qed

text \<open>
  Claim C5. When a node or an edge is saved with \<^verbatim>\<open>setchange=True\<close> and its data differ
  from the persisted original, among the dirty keys that do not begin with an underscore,
  in the value of \<^verbatim>\<open>mtime\<close> only, the journal is left as it was: no change record is
  appended.
\<close>

theorem save_mtime_only:
  assumes "original self w = (Inr (Some old), w1)"
    and "mtime_differs (idata (the_item old)) (idata self) (changedkeys self)"
  shows "changes (snd (Node_save force batch True self w)) = changes w
       \<and> changes (snd (Edge_save force batch True self w)) = changes w"
proof
  have o: "same_journal w (snd (andthen (original self) (Node_store batch True self data) w))" for data
    by (rule keeps_known [where m = "original self" and x = "Some old" and ?w1.0 = w1
          and f = "Node_store batch True self data"])
       (rule same_journal_trans sj_original assms(1) sj_Node_store_mtime [OF assms(2)])+
  show "changes (snd (Node_save force batch True self w)) = changes w"
  proof (cases "cleandata (idata self)")
    case (Inl e)
    then show ?thesis by (simp add: Node_save_unfold ret_def raise_def)
  next
    case (Inr data)
    then show ?thesis using o [of data]
      by (simp add: Node_save_unfold ret_def same_journal_def)
  qed
next
  have o: "same_journal w (snd (andthen (original self) (Edge_store batch True self s e data) w))"
    for s e data
    by (rule keeps_known [where m = "original self" and x = "Some old" and ?w1.0 = w1
          and f = "Edge_store batch True self s e data"])
       (rule same_journal_trans sj_original assms(1) sj_Edge_store_mtime [OF assms(2)])+
  show "changes (snd (Edge_save force batch True self w)) = changes w"
  proof (cases "\<not> force \<and> changedkeys self = {}")
    case True
    then show ?thesis by (simp add: Edge_save_unfold ret_def)
  next
    case False
    show ?thesis
    proof (cases "idata self ''startuid''")
      case None
      then show ?thesis using False by (simp add: Edge_save_unfold getitem_def raise_def ret_def)
    next
      case s: (Some s)
      show ?thesis
      proof (cases "Graph_exists s w")
        case False': False
        then show ?thesis using False s
          by (simp add: Edge_save_unfold getitem_def andthen_apply query_def raise_def ret_def)
      next
        case True
        note es = True
        show ?thesis
        proof (cases "idata self ''enduid''")
          case None
          then show ?thesis using False s es
            by (simp add: Edge_save_unfold getitem_def andthen_apply query_def raise_def ret_def)
        next
          case e: (Some e)
          show ?thesis
          proof (cases "Graph_exists e w")
            case False'': False
            then show ?thesis using False s es e
              by (simp add: Edge_save_unfold getitem_def andthen_apply query_def raise_def ret_def)
          next
            case True
            show ?thesis
            proof (cases "cleandata (idata self)")
              case (Inl err)
              then show ?thesis using False s es e True
                by (simp add: Edge_save_unfold getitem_def andthen_apply query_def raise_def ret_def)
            next
              case (Inr data)
              then show ?thesis using False s es e True o [of s e data]
                by (simp add: Edge_save_unfold getitem_def andthen_apply [of "query _"] query_def
                      same_journal_def ret_def)
            qed
          qed
        qed
      qed
    qed
  qed
qed

lemma original_item_a:
  "original item_a world0 = (Inr (Some (NodeObj \<lparr> idata = n_data node_a, changedkeys = {} \<rparr>)), world0)"
  by (simp add: original_def item_a_def getitem_def getuid_def andthen_apply query_def world0_def
      select_data_def sql_eq_def node_a_def node_b_def fetch_items_def Node_init_def unset_def
      GraphyDBItem_init_def default_uid_def default_time_def setChanged_def ret_def
      IndexedSet_def index_of_def one_def IndexedSet_len_def)

theorem save_mtime_only_witness:
  "changes (snd (Node_save False None True item_a world0)) = changes world0
   \<and> changes (snd (Edge_save False None True item_a world0)) = changes world0"
proof -
  have "mtime_differs (idata (the_item (NodeObj \<lparr> idata = n_data node_a, changedkeys = {} \<rparr>)))
          (idata item_a) (changedkeys item_a)"
    by (simp add: mtime_differs_def item_a_def node_a_def)
  with original_item_a show ?thesis by (rule save_mtime_only)
qed

lemmas run_defs = andthen_apply query_def ret_def raise_def getitem_def

lemmas world0_defs = world0_def node_a_def node_b_def edge_ab_def

lemmas fetch_defs = getuid_def original_def select_data_def sql_eq_def fetch_items_def
  Node_init_def Edge_init_def unset_def GraphyDBItem_init_def default_uid_def default_time_def
  setChanged_def IndexedSet_def index_of_def one_def IndexedSet_len_def

lemma Edge_save_missing_start:
  assumes "force \<or> changedkeys self \<noteq> {}" and "idata self ''startuid'' = Some s"
    and "\<not> Graph_exists s w"
  shows "Edge_save force batch setchange self w
           = (Inl (GraphyDBException ''start node referenced from edge does not exist in DB.''), w)"
  using assms by (auto simp: Edge_save_def run_defs)

lemma Edge_save_missing_end:
  assumes "force \<or> changedkeys self \<noteq> {}" and "idata self ''startuid'' = Some s"
    and "Graph_exists s w" and "idata self ''enduid'' = Some e" and "\<not> Graph_exists e w"
  shows "Edge_save force batch setchange self w
           = (Inl (GraphyDBException ''end node referenced from edge does not exist in DB.''), w)"
  using assms by (auto simp: Edge_save_def run_defs)

text \<open>
  Claim C4 at an endpoint that is the uid of an edge. \<^verbatim>\<open>Edge.save\<close> asks \<^verbatim>\<open>Graph.exists\<close>,
  which accepts a uid of the table \<^verbatim>\<open>edges\<close> as well: the edge \<open>f\<close>, whose \<^verbatim>\<open>startuid\<close> is no
  row of \<^verbatim>\<open>nodes\<close>, is saved without an error and the table \<^verbatim>\<open>edges\<close> gains a row. (When an
  endpoint is in neither table the save raises and writes nothing: \<open>Edge_save_missing_start\<close>,
  \<open>Edge_save_missing_end\<close>.)
\<close>

theorem Edge_save_edge_endpoint:
  "fst (Edge_save False None True item_f world0) = Inr (setChanged False item_f)
   \<and> map e_uid (edges (snd (Edge_save False None True item_f world0))) = [Str ''e'', Str ''f'']
   \<and> map e_startuid (edges (snd (Edge_save False None True item_f world0))) = [Str ''a'', Str ''e'']
   \<and> Str ''e'' \<notin> set (map n_uid (nodes world0))"
  by (simp add: Edge_save_def item_f_def run_defs world0_defs fetch_defs Graph_exists_def
        cleandata_def replace_edge_def addchange_def record_change_def time_time_def
        generateUUID_def insert_change_def)

lemma keeps_attempt_then:
  assumes "reflp R" and "\<And>x. r = Inr x \<Longrightarrow> keeps R (f x)"
  shows "keeps R (andthen (attempt r) f)"
proof (cases r)
  case (Inl e)
  then show ?thesis by (simp add: keeps_raise assms(1))
next
  case (Inr x)
  then show ?thesis using assms(2) by simp
qed

lemma readingD: "reading R \<Longrightarrow> reflp R" "reading R \<Longrightarrow> transp R"
  "reading R \<Longrightarrow> keeps R time_time" "reading R \<Longrightarrow> keeps R generateUUID"
  by (simp_all add: reading_def)

lemma keeps_init:
  assumes "reading R" shows "keeps R (GraphyDBItem_init d c)"
  unfolding GraphyDBItem_init_def default_uid_def default_time_def
  by (intro keeps_rules readingD [OF assms])

lemma keeps_Node_init:
  assumes "reading R" shows "keeps R (Node_init d c)"
  unfolding Node_init_def by (intro keeps_rules readingD [OF assms] keeps_init [OF assms])

lemma keeps_Edge_init:
  assumes "reading R" shows "keeps R (Edge_init d c)"
  unfolding Edge_init_def by (intro keeps_rules readingD [OF assms] keeps_init [OF assms])

lemma keeps_materialize:
  assumes "reading R" and "\<And>d c. keeps R (init d c)"
  shows "keeps R (materialize init ds)"
proof (induction ds)
  case Nil
  show ?case by (simp add: keeps_ret readingD [OF assms(1)])
next
  case (Cons d ds)
  show ?case unfolding materialize.simps
    by (intro keeps_rules readingD [OF assms(1)] assms(2) Cons)
qed

lemma keeps_fetch_items:
  assumes "reading R" and "\<And>d c. keeps R (init d c)"
  shows "keeps R (fetch_items init ds)"
  unfolding fetch_items_def
  by (intro keeps_rules readingD [OF assms(1)] keeps_materialize [OF assms])

lemma keeps_getuid:
  assumes "reading R" shows "keeps R (getuid u)"
  unfolding getuid_def
  by (intro keeps_rules readingD [OF assms] keeps_fetch_items [OF assms]
        keeps_Node_init [OF assms] keeps_Edge_init [OF assms])

lemma keeps_original:
  assumes "reading R" shows "keeps R (original self)"
  unfolding original_def by (intro keeps_rules readingD [OF assms] keeps_getuid [OF assms])

lemma keeps_inE:
  assumes "reading R" shows "keeps R (inE self)"
  unfolding inE_def
  by (intro keeps_rules readingD [OF assms] keeps_fetch_items [OF assms] keeps_Edge_init [OF assms])

lemma keeps_outE:
  assumes "reading R" shows "keeps R (outE self)"
  unfolding outE_def
  by (intro keeps_rules readingD [OF assms] keeps_fetch_items [OF assms] keeps_Edge_init [OF assms])

lemma keeps_counts:
  assumes "reading R" shows "keeps R (inE_count self)" "keeps R (outE_count self)"
  unfolding inE_count_def outE_count_def
  by (intro keeps_rules readingD [OF assms])+

lemma keeps_bothE:
  assumes "reading R" shows "keeps R (bothE so self)"
  unfolding bothE_def
  by (intro keeps_rules readingD [OF assms] keeps_inE [OF assms] keeps_outE [OF assms])

lemma keeps_touch_mtime:
  assumes "reading R" shows "keeps R (touch_mtime i)"
  unfolding touch_mtime_def by (intro keeps_rules readingD [OF assms])

lemma clean_writes_refl: "reflp clean_writes"
  by (simp add: reflp_def clean_writes_def)

lemma clean_writes_trans: "transp clean_writes"
  unfolding transp_def clean_writes_def by blast

lemma clean_writes_reading: "reading clean_writes"
  by (simp add: reading_def clean_writes_refl clean_writes_trans keeps_def time_time_def
        generateUUID_def clean_writes_def)

lemmas cw = clean_writes_refl clean_writes_trans

lemma cleandata_persistable: "cleandata d = Inr data \<Longrightarrow> persistable data"
  by (auto simp: cleandata_def persistable_def ephemeral_def dom_def split: if_splits)

lemma diff_persistable:
  assumes "diff d1 d2 K = Inr d"
  shows "persistable (getdict (plus d))" "persistable (getdict (minus d))"
proof -
  have a: "persistable (diff_add d1 d2 K)"
    by (auto simp: persistable_def ephemeral_def diff_add_def dom_def split: if_splits)
  have r: "persistable (diff_remove d1 d2 K)"
    by (auto simp: persistable_def ephemeral_def diff_remove_def dom_def split: if_splits)
  have e: "persistable (Map.empty :: 'a dict)" by (simp add: persistable_def)
  from assms a e show "persistable (getdict (plus d))"
    by (auto simp: diff_def Let_def getdict_def split: if_splits)
  from assms r e show "persistable (getdict (minus d))"
    by (auto simp: diff_def Let_def getdict_def split: if_splits)
qed

lemma persistable_None: "persistable (getdict None)"
  by (simp add: persistable_def getdict_def)

lemma cw_replace_node: "persistable (n_data row) \<Longrightarrow> keeps clean_writes (replace_node row)"
  by (auto simp: keeps_def replace_node_def clean_writes_def)

lemma cw_replace_edge: "persistable (e_data row) \<Longrightarrow> keeps clean_writes (replace_edge row)"
  by (auto simp: keeps_def replace_edge_def clean_writes_def)

lemma cw_delete_row: "keeps clean_writes (delete_node_row u)" "keeps clean_writes (delete_edge_row u)"
  by (auto simp: keeps_def delete_node_row_def delete_edge_row_def clean_writes_def)

lemma cw_deletechange: "keeps clean_writes (deletechange i)"
  by (auto simp: keeps_def deletechange_def clean_writes_def)

lemma cw_insert_change:
  "persistable (getdict (plus c)) \<Longrightarrow> persistable (getdict (minus c))
     \<Longrightarrow> keeps clean_writes (insert_change c)"
  by (auto simp: keeps_def insert_change_def clean_writes_def)

lemma cw_record_change:
  "persistable (getdict p) \<Longrightarrow> persistable (getdict m)
     \<Longrightarrow> keeps clean_writes (record_change u p m batch)"
  unfolding record_change_def
  by (intro keeps_rules cw readingD [OF clean_writes_reading] cw_insert_change) simp_all

lemma cw_addchange: "keeps clean_writes (addchange new old batch)"
proof -
  have del: "keeps clean_writes
       (andthen (attempt (getitem (idata i) ''uid'')) (\<lambda>u.
        andthen (attempt (cleandata (idata i))) (\<lambda>m. record_change u None (Some m) batch)))" for i
    by (intro keeps_attempt_then cw cw_record_change)
       (simp_all add: persistable_None getdict_def [of "Some _"] cleandata_persistable)
  have add: "keeps clean_writes
       (andthen (attempt (getitem (idata i) ''uid'')) (\<lambda>u.
        andthen (attempt (cleandata (idata i))) (\<lambda>p. record_change u (Some p) None batch)))" for i
    by (intro keeps_attempt_then cw cw_record_change)
       (simp_all add: persistable_None getdict_def [of "Some _"] cleandata_persistable)
  have mod: "keeps clean_writes
       (andthen (attempt (diff (idata old') (idata new') (changedkeys new'))) (\<lambda>d.
                 if plus d = None \<and> minus d = None then ret ()
                 else
                   andthen (attempt (getitem (idata new') ''uid'')) (\<lambda>u.
                     record_change u (plus d) (minus d) batch)))" for old' new'
    by (intro keeps_attempt_then keeps_if keeps_ret cw cw_record_change)
       (simp_all add: diff_persistable)
  show ?thesis
  proof (cases new)
    case None
    show ?thesis
    proof (cases old)
      case n: None
      with None show ?thesis by (simp add: addchange_def keeps_ret cw)
    next
      case (Some x)
      with None del [of x] show ?thesis by (simp add: addchange_def)
    qed
  next
    case (Some n)
    show ?thesis
    proof (cases old)
      case None
      with Some add [of n] show ?thesis by (simp add: addchange_def)
    next
      case x: (Some x)
      with Some mod [of x n] show ?thesis by (simp add: addchange_def)
    qed
  qed
qed

lemmas cwr = readingD [OF clean_writes_reading]

lemma cw_Node_store:
  "persistable data \<Longrightarrow> keeps clean_writes (Node_store batch setchange self data orig)"
  unfolding Node_store_def
  by (intro keeps_rules cwr cw_replace_node cw_addchange) simp

lemma cw_Edge_store:
  "persistable data \<Longrightarrow> keeps clean_writes (Edge_store batch setchange self s e data orig)"
  unfolding Edge_store_def
  by (intro keeps_rules cwr cw_replace_edge cw_addchange) simp

lemma cw_Node_save: "keeps clean_writes (Node_save force batch setchange self)"
  unfolding Node_save_unfold
  by (intro keeps_if keeps_ret keeps_attempt_then keeps_andthen cwr
        keeps_original [OF clean_writes_reading] cw_Node_store cleandata_persistable)

lemma cw_Edge_save: "keeps clean_writes (Edge_save force batch setchange self)"
  unfolding Edge_save_unfold
  by (intro keeps_if keeps_ret keeps_raise keeps_query keeps_attempt_then keeps_andthen cwr
        keeps_original [OF clean_writes_reading] cw_Edge_store cleandata_persistable)

lemma cw_Edge_delete: "keeps clean_writes (Edge_delete setchange batch self)"
  unfolding Edge_delete_def
  by (intro keeps_rules cwr cw_delete_row keeps_touch_mtime [OF clean_writes_reading] cw_addchange)

lemma cw_delete_edges: "keeps clean_writes (delete_edges setchange batch es)"
proof (induction es)
  case Nil
  show ?case by (simp add: keeps_ret cw)
next
  case (Cons e es)
  show ?case unfolding delete_edges.simps
    by (intro keeps_rules cwr cw_Edge_delete Cons)
qed

lemma cw_disconnect_edges: "keeps clean_writes (disconnect_edges so disconnect batch setchange self)"
  unfolding disconnect_edges_def
  by (intro keeps_rules cwr keeps_bothE [OF clean_writes_reading] cw_delete_edges)

lemma cw_Node_delete: "keeps clean_writes (Node_delete so disconnect batch setchange self)"
  unfolding Node_delete_def
  by (intro keeps_rules cwr keeps_counts [OF clean_writes_reading] cw_disconnect_edges
        cw_delete_row keeps_touch_mtime [OF clean_writes_reading] cw_addchange)

lemma cw_item_delete: "keeps clean_writes (item_delete so item)"
  unfolding item_delete_def
  by (intro keeps_rules cwr cw_Node_delete cw_Edge_delete)

lemma cw_item_restore: "keeps clean_writes (item_restore change item)"
  unfolding item_restore_def
  by (intro keeps_rules cwr cw_Node_save cw_Edge_save)

lemma cw_undo_change: "keeps clean_writes (undo_change so change)"
  unfolding undo_change_def Let_def
  by (intro keeps_rules cwr keeps_getuid [OF clean_writes_reading] cw_item_delete cw_item_restore
        keeps_Node_init [OF clean_writes_reading] keeps_Edge_init [OF clean_writes_reading]
        cw_Node_save cw_Edge_save)

lemma cw_undo_loop: "keeps clean_writes (undo_loop so batch done)"
proof (induction batch arbitrary: "done")
  case Nil
  show ?case by (simp add: keeps_ret cw)
next
  case (Cons ic batch)
  obtain i c where ic: "ic = (i, c)" by (cases ic)
  show ?case unfolding ic undo_loop.simps
    by (intro keeps_rules cwr cw_undo_change cw_deletechange Cons)
qed

lemma cw_undo: "keeps clean_writes (undo so)"
  unfolding undo_def by (intro keeps_rules cwr cw_undo_loop)

text \<open>
  Claim C8. Whatever the item and the state, every row that \<^verbatim>\<open>Node.save\<close>, \<^verbatim>\<open>Edge.save\<close>,
  \<^verbatim>\<open>Node.delete\<close>, \<^verbatim>\<open>Edge.delete\<close> or \<^verbatim>\<open>Graph.undo\<close> writes to \<^verbatim>\<open>nodes\<close> or \<^verbatim>\<open>edges\<close> has a
  data dictionary without a key that begins with an underscore, and so have the \<^verbatim>\<open>'+'\<close> and
  \<^verbatim>\<open>'-'\<close> dictionaries of every change record they append to the journal.
\<close>

theorem writes_persistable:
  "keeps clean_writes (Node_save force batch setchange self)
   \<and> keeps clean_writes (Edge_save force batch setchange self)
   \<and> keeps clean_writes (Node_delete so disconnect batch setchange self)
   \<and> keeps clean_writes (Edge_delete setchange batch self)
   \<and> keeps clean_writes (undo so)"
  by (intro conjI cw_Node_save cw_Edge_save cw_Node_delete cw_Edge_delete cw_undo)

theorem writes_persistable_witness:
  "idata item_t ''_tmp'' = Some (Num 7)
   \<and> map n_mtime (nodes (snd (Node_save False None False item_t world0))) = [Num 1, Num 5]
   \<and> clean_writes world0 (snd (Node_save False None False item_t world0))"
proof -
  have 1: "idata item_t ''_tmp'' = Some (Num 7)" by (simp add: item_t_def)
  have 2: "map n_mtime (nodes (snd (Node_save False None False item_t world0))) = [Num 1, Num 5]"
    by (simp add: Node_save_def item_t_def run_defs world0_defs cleandata_def replace_node_def
          sql_eq_def)
  from writes_persistable [of False None False item_t]
  have "keeps clean_writes (Node_save False None False item_t)" by (rule conjunct1)
  then have 3: "clean_writes world0 (snd (Node_save False None False item_t world0))"
    by (simp add: keeps_def)
  from 1 2 3 show ?thesis by (intro conjI)
qed

lemma IndexedSet_consistent: "consistent uid (IndexedSet uid it)"
proof -
  have idx: "iindex (IndexedSet uid it) = index_of uid (elements it)"
    by (simp add: IndexedSet_def Let_def)
  have "uid x = k" if "(k, x) \<in> set (index_of uid (elements it))" for k x
  proof -
    from that index_of_distinct [of uid "elements it"]
    have "map_of (index_of uid (elements it)) k = Some x" by simp
    then have in_keys: "k \<in> uid ` set (elements it)" and x: "x = latest uid (elements it) k"
      by (auto simp: index_of_lookup split: if_splits)
    from in_keys have "filter (\<lambda>y. uid y = k) (elements it) \<noteq> []"
      by (auto simp: filter_empty_conv)
    then have "last (filter (\<lambda>y. uid y = k) (elements it)) \<in> set (filter (\<lambda>y. uid y = k) (elements it))"
      by (rule last_in_set)
    then show ?thesis by (simp add: x latest_def)
  qed
  then show ?thesis
    unfolding consistent_def idx using index_of_distinct [of uid "elements it"] by auto
qed

lemma IndexedSet_list_keys: "map uid (ilist (IndexedSet uid it)) = map fst (iindex (IndexedSet uid it))"
proof -
  have idx: "iindex (IndexedSet uid it) = index_of uid (elements it)"
    by (simp add: IndexedSet_def Let_def)
  have "\<forall>(k, x) \<in> set (iindex (IndexedSet uid it)). uid x = k"
    using IndexedSet_consistent [of uid it] by (simp add: consistent_def)
  then have "map (uid \<circ> snd) (iindex (IndexedSet uid it)) = map fst (iindex (IndexedSet uid it))"
    by (intro map_cong refl) auto
  then show ?thesis by (simp add: IndexedSet_list idx)
qed

lemma IndexedSet_or_union:
  assumes "set_order so" and "consistent uid A" and "consistent uid B"
  shows "\<exists>C. IndexedSet_or so uid A B = Inr C
           \<and> map uid (ilist C) = union_keys so A B
           \<and> map fst (iindex C) = union_keys so A B"
proof -
  let ?keys = "union_keys so A B"
  let ?ys = "map (pick (iindex A) (iindex B)) ?keys"
  from assms(1) have d: "distinct ?keys"
    and s: "set ?keys = fst ` set (iindex A) \<union> fst ` set (iindex B)"
    by (simp_all add: set_order_def union_keys_def)
  have cy: "conditionalyield ?keys (iindex A) (iindex B) = Inr ?ys"
    by (rule conditionalyield_all) (simp add: s)
  have "map (\<lambda>k. uid (pick (iindex A) (iindex B) k)) ?keys = ?keys"
    by (rule map_idI) (use pick_uid [OF assms(2,3)] s in auto)
  then have u: "map uid ?ys = ?keys" by (simp add: comp_def)
  then have dy: "distinct (map uid ?ys)" using d by simp
  have r: "IndexedSet_or so uid A B = Inr \<lparr> ilist = ?ys, iindex = map (\<lambda>x. (uid x, x)) ?ys \<rparr>"
    using IndexedSet_Generator_distinct [OF dy]
    by (simp add: IndexedSet_or_def cy union_keys_def [symmetric])
  have k: "map fst (map (\<lambda>x. (uid x, x)) ?ys) = ?keys" using u by (simp add: comp_def)
  from r u k show ?thesis by simp
qed

lemma fetch_items_result:
  "fetch_items init rows w = (Inr S, w') \<Longrightarrow> \<exists>items. S = IndexedSet item_uid (Sequence items)"
  by (auto simp: fetch_items_def andthen_apply ret_def split: prod.splits sum.splits)

lemma inE_result:
  "inE v w = (Inr A, w') \<Longrightarrow> \<exists>items. A = IndexedSet item_uid (Sequence items)"
  by (auto simp: inE_def run_defs dest: fetch_items_result split: option.splits)

lemma outE_result:
  "outE v w = (Inr B, w') \<Longrightarrow> \<exists>items. B = IndexedSet item_uid (Sequence items)"
  by (auto simp: outE_def run_defs dest: fetch_items_result split: option.splits)

text \<open>
  Claim C7. When \<^verbatim>\<open>v.inE()\<close> and \<^verbatim>\<open>v.outE()\<close> return the sets \<open>A\<close> and \<open>B\<close>, \<^verbatim>\<open>v.bothE()\<close> returns a
  set whose uids are those of \<open>A\<close> together with those of \<open>B\<close>, each once, and
  \<^verbatim>\<open>v.bothE(COUNT=True)\<close> returns the number of these uids: an edge that is in both sets, as
  a self-loop is, counts once.
\<close>

theorem bothE_union:
  assumes "set_order so" and "inE v w = (Inr A, w)" and "outE v w = (Inr B, w)"
  shows "\<exists>C. bothE so v w = (Inr C, w)
           \<and> set (map item_uid (ilist C)) = set (map item_uid (ilist A)) \<union> set (map item_uid (ilist B))
           \<and> distinct (map item_uid (ilist C))
           \<and> bothE_count so v w
               = (Inr (card (set (map item_uid (ilist A)) \<union> set (map item_uid (ilist B)))), w)"
proof -
  from inE_result [OF assms(2)] obtain xs where A: "A = IndexedSet item_uid (Sequence xs)" by blast
  from outE_result [OF assms(3)] obtain ys where B: "B = IndexedSet item_uid (Sequence ys)" by blast
  have cA: "consistent item_uid A" and cB: "consistent item_uid B"
    unfolding A B by (rule IndexedSet_consistent)+
  have kA: "map item_uid (ilist A) = map fst (iindex A)"
    and kB: "map item_uid (ilist B) = map fst (iindex B)"
    unfolding A B by (rule IndexedSet_list_keys)+
  from IndexedSet_or_union [OF assms(1) cA cB] obtain C where
    C: "IndexedSet_or so item_uid A B = Inr C"
    and u: "map item_uid (ilist C) = union_keys so A B"
    and k: "map fst (iindex C) = union_keys so A B" by blast
  from assms(1) have d: "distinct (union_keys so A B)"
    and s: "set (union_keys so A B) = set (map fst (iindex A)) \<union> set (map fst (iindex B))"
    by (simp_all add: set_order_def union_keys_def)
  have 1: "bothE so v w = (Inr C, w)"
    by (simp add: bothE_def andthen_apply assms(2,3) C ret_def)
  have 2: "set (map item_uid (ilist C)) = set (map item_uid (ilist A)) \<union> set (map item_uid (ilist B))"
    unfolding u s kA kB ..
  have 3: "distinct (map item_uid (ilist C))" unfolding u by (rule d)
  have "IndexedSet_len C = length (map fst (iindex C))" by (simp add: IndexedSet_len_def)
  also have "\<dots> = card (set (union_keys so A B))" unfolding k using d by (simp add: distinct_card)
  also have "\<dots> = card (set (map item_uid (ilist A)) \<union> set (map item_uid (ilist B)))"
    unfolding s kA kB ..
  finally have len: "IndexedSet_len C
      = card (set (map item_uid (ilist A)) \<union> set (map item_uid (ilist B)))" .
  have 4: "bothE_count so v w
             = (Inr (card (set (map item_uid (ilist A)) \<union> set (map item_uid (ilist B)))), w)"
    by (simp add: bothE_count_def andthen_apply assms(2,3) C ret_def len)
  from 1 2 3 4 show ?thesis by blast
qed

lemma inE_loop: "inE item_a world_loop = (Inr loop_set, world_loop)"
  by (simp add: inE_def item_a_def run_defs world_loop_def edge_aa_def fetch_defs loop_set_def
        item_uid_def)

lemma outE_loop: "outE item_a world_loop = (Inr loop_set, world_loop)"
  by (simp add: outE_def item_a_def run_defs world_loop_def edge_aa_def fetch_defs loop_set_def
        item_uid_def)

theorem bothE_union_witness:
  "bothE_count (\<lambda>ks. rev (remdups ks)) item_a world_loop = (Inr 1, world_loop)
   \<and> inE_count item_a world_loop = (Inr 1, world_loop)
   \<and> outE_count item_a world_loop = (Inr 1, world_loop)"
proof -
  have so: "set_order (\<lambda>ks :: unit val list. rev (remdups ks))" by (simp add: set_order_def)
  from bothE_union [OF so inE_loop outE_loop] obtain C where
    "bothE_count (\<lambda>ks. rev (remdups ks)) item_a world_loop
       = (Inr (card (set (map item_uid (ilist loop_set)) \<union> set (map item_uid (ilist loop_set)))),
          world_loop)"
    by (elim exE conjE)
  then have 1: "bothE_count (\<lambda>ks. rev (remdups ks)) item_a world_loop = (Inr 1, world_loop)"
    by (simp add: loop_set_def)
  have 2: "inE_count item_a world_loop = (Inr 1, world_loop)"
    by (simp add: inE_count_def item_a_def run_defs world_loop_def edge_aa_def count_distinct_def
          sql_eq_def)
  have 3: "outE_count item_a world_loop = (Inr 1, world_loop)"
    by (simp add: outE_count_def item_a_def run_defs world_loop_def edge_aa_def count_distinct_def
          sql_eq_def)
  from 1 2 3 show ?thesis by (intro conjI)
qed

























end
